theory Spec2Isabelle
  imports Complex_Main "HOL-Library.AList" "HOL-Library.Multiset"
begin

section \<open>JavaScript values and operators used by the worker\<close>

text \<open>
  A JavaScript string is modelled as a \<^typ>\<open>string\<close> whose elements stand for the UTF-16
  code units of the source string (the type \<^typ>\<open>char\<close> has the first 256 of them), so that
  \<^const>\<open>length\<close> is the \<open>.length\<close> property.

  A Number that comes out of \<open>parseInt\<close> is either \<open>NaN\<close> or an integer. The source only
  compares these numbers, clamps them and uses them as slice bounds, and none of these
  operations distinguishes a large integer from its rounding to a double (or from
  \<open>Infinity\<close>), so the integer is kept exact.
\<close>

datatype jsnum = NaN | Num int

fun math_min :: "jsnum \<Rightarrow> jsnum \<Rightarrow> jsnum" where
  "math_min (Num a) (Num b) = Num (min a b)"
| "math_min _ _ = NaN"

fun math_max :: "jsnum \<Rightarrow> jsnum \<Rightarrow> jsnum" where
  "math_max (Num a) (Num b) = Num (max a b)"
| "math_max _ _ = NaN"

text \<open>The relational operators are false as soon as one operand is \<open>NaN\<close>.\<close>

fun js_gt :: "jsnum \<Rightarrow> jsnum \<Rightarrow> bool" where
  "js_gt (Num a) (Num b) = (a > b)"
| "js_gt _ _ = False"

fun js_ge :: "jsnum \<Rightarrow> jsnum \<Rightarrow> bool" where
  "js_ge (Num a) (Num b) = (a \<ge> b)"
| "js_ge _ _ = False"

fun js_le :: "jsnum \<Rightarrow> jsnum \<Rightarrow> bool" where
  "js_le (Num a) (Num b) = (a \<le> b)"
| "js_le _ _ = False"

fun js_times :: "jsnum \<Rightarrow> jsnum \<Rightarrow> jsnum" where
  "js_times (Num a) (Num b) = Num (a * b)"
| "js_times _ _ = NaN"

text \<open>
  \<open>xs.slice(0, end)\<close>: a \<open>NaN\<close> bound counts as 0 and a negative bound counts from the end
  of the array.
\<close>

fun slice0 :: "jsnum \<Rightarrow> 'a list \<Rightarrow> 'a list" where
  "slice0 NaN xs = []"
| "slice0 (Num n) xs =
     (if n < 0 then take (nat (int (length xs) + n)) xs else take (nat n) xs)"

text \<open>\<open>x || d\<close> on a value that is \<open>null\<close> or a string: \<open>null\<close> and the empty string are falsy.\<close>

definition or_default :: "string option \<Rightarrow> string \<Rightarrow> string" where
  "or_default x d = (case x of None \<Rightarrow> d | Some v \<Rightarrow> if v = [] then d else v)"

text \<open>
  \<open>parseInt(s)\<close> with no radix: leading white space is skipped, then an optional sign, an
  optional \<open>0x\<close> prefix that selects base 16, and the longest run of digits of the base;
  what follows the digits is ignored and no digit at all gives \<open>NaN\<close>. (Of the white space
  of ECMAScript only the code units below 256 are listed.)
\<close>

definition is_white_space :: "char \<Rightarrow> bool" where
  "is_white_space c \<longleftrightarrow> of_char c \<in> set [9, 10, 11, 12, 13, 32, 160 :: nat]"

definition digit_value :: "char \<Rightarrow> nat option" where
  "digit_value c =
     (let n = (of_char c :: nat) in
      if 48 \<le> n \<and> n \<le> 57 then Some (n - 48)
      else if 97 \<le> n \<and> n \<le> 122 then Some (n - 87)
      else if 65 \<le> n \<and> n \<le> 90 then Some (n - 55)
      else None)"

definition is_digit :: "nat \<Rightarrow> char \<Rightarrow> bool" where
  "is_digit radix c = (case digit_value c of None \<Rightarrow> False | Some d \<Rightarrow> d < radix)"

definition digits_value :: "nat \<Rightarrow> string \<Rightarrow> nat" where
  "digits_value radix ds = foldl (\<lambda>acc c. acc * radix + the (digit_value c)) 0 ds"

fun strip_sign :: "string \<Rightarrow> bool \<times> string" where
  "strip_sign [] = (False, [])"
| "strip_sign (c # cs) =
     (if c = CHR ''-'' then (True, cs)
      else if c = CHR ''+'' then (False, cs)
      else (False, c # cs))"

fun strip_radix :: "string \<Rightarrow> nat \<times> string" where
  "strip_radix (c # d # cs) =
     (if c = CHR ''0'' \<and> (d = CHR ''x'' \<or> d = CHR ''X'') then (16, cs) else (10, c # d # cs))"
| "strip_radix cs = (10, cs)"

definition parseInt :: "string \<Rightarrow> jsnum" where
  "parseInt s =
     (case strip_sign (dropWhile is_white_space s) of (negative, s1) \<Rightarrow>
      case strip_radix s1 of (radix, s2) \<Rightarrow>
      let ds = takeWhile (is_digit radix) s2 in
      if ds = [] then NaN
      else Num ((if negative then - 1 else 1) * int (digits_value radix ds)))"

text \<open>
  \<open>rateLimits\<close> and \<open>languageData\<close> are plain objects used as dictionaries. Their own
  properties are kept as an association list in insertion order, which is the order of
  \<open>Object.keys\<close> for keys that are not array indices (language codes, IP addresses). A read
  \<open>obj[k]\<close> first looks among the own properties and then along the prototype chain, so for
  a key that names a member of \<open>Object.prototype\<close> a read yields that member, a function or
  an object, and not \<open>undefined\<close>.
\<close>

datatype 'a property = Undefined | Own 'a | Inherited

definition object_prototype_names :: "string list" where
  "object_prototype_names =
     [''constructor'', ''__defineGetter__'', ''__defineSetter__'', ''hasOwnProperty'',
      ''__lookupGetter__'', ''__lookupSetter__'', ''isPrototypeOf'', ''propertyIsEnumerable'',
      ''toString'', ''valueOf'', ''__proto__'', ''toLocaleString'']"

definition get_prop :: "(string \<times> 'a) list \<Rightarrow> string \<Rightarrow> 'a property" where
  "get_prop obj k =
     (case map_of obj k of
        Some v \<Rightarrow> Own v
      | None \<Rightarrow> if k \<in> set object_prototype_names then Inherited else Undefined)"

section \<open>Rate limiter\<close>

type_synonym RateLimitData = "(string \<times> int) list"

definition RATE_LIMIT_WINDOW :: int where
  "RATE_LIMIT_WINDOW = 5000"

text \<open>
  The body of the clean-up \<open>forEach\<close> for one key. The keys come from \<open>Object.keys\<close>, so the
  read finds an own property; on anything else the difference is \<open>NaN\<close> and nothing is
  deleted.
\<close>

definition purge_key :: "int \<Rightarrow> string \<Rightarrow> RateLimitData \<Rightarrow> RateLimitData" where
  "purge_key now key rl =
     (case get_prop rl key of
        Own t \<Rightarrow> if now - t > RATE_LIMIT_WINDOW then AList.delete key rl else rl
      | _ \<Rightarrow> rl)"

text \<open>
  \<open>checkRateLimit\<close>, with \<open>Date.now()\<close> passed in as \<open>now\<close> and the table passed through.
  \<open>!lastRequest\<close> holds for \<open>undefined\<close> and for the number 0; an inherited member of
  \<open>Object.prototype\<close> is truthy and \<open>now - lastRequest\<close> is then \<open>NaN\<close>, which is not greater
  than the window.
\<close>

definition checkRateLimit :: "int \<Rightarrow> string \<Rightarrow> RateLimitData \<Rightarrow> bool \<times> RateLimitData" where
  "checkRateLimit now ip rl =
     (let admit =
        (case get_prop rl ip of
           Undefined \<Rightarrow> True
         | Own lastRequest \<Rightarrow> lastRequest = 0 \<or> now - lastRequest > RATE_LIMIT_WINDOW
         | Inherited \<Rightarrow> False)
      in if admit then
           (let rl1 = AList.update ip now rl
            in (True, fold (purge_key now) (map fst rl1) rl1))
         else (False, rl))"

text \<open>What the clean-up pass leaves of one entry.\<close>

definition purged :: "int \<Rightarrow> int option \<Rightarrow> int option" where
  "purged now v =
     (case v of None \<Rightarrow> None | Some t \<Rightarrow> if now - t > RATE_LIMIT_WINDOW then None else Some t)"

text \<open>A sequence of checks, each with its time and client, applied to the table in order.\<close>

fun checks :: "(int \<times> string) list \<Rightarrow> RateLimitData \<Rightarrow> RateLimitData" where
  "checks [] rl = rl"
| "checks ((t, c) # cs) rl = checks cs (snd (checkRateLimit t c rl))"

section \<open>Process state and environment\<close>

text \<open>
  The module-level variables of the worker. Arrays are objects: \<open>languageData\<close> holds
  references into a heap of arrays, so that a local variable of a handler can alias a stored
  word list. \<open>availableLanguages\<close> is only ever assigned and serialised, so its array is kept
  by value. Two fields record effects on the outside: the URLs requested from the remote
  source so far, and the number of \<open>Math.random()\<close> draws consumed so far.
\<close>

type_synonym WordData = "string list"
type_synonym addr = nat

record state =
  heap :: "WordData list"
  languageData :: "(string \<times> addr) list"
  availableLanguages :: "string list"
  rateLimits :: RateLimitData
  dataLoaded :: bool
  fetched :: "string list"
  randoms :: nat

text \<open>
  What a request observes of the outside: the clock, the remote source (\<open>None\<close> when
  \<open>fetch\<close> or \<open>response.json()\<close> throws, otherwise the parsed array, taken to have the
  declared type \<open>WordData\<close>), and the sequence of values \<open>Math.random()\<close> returns.
\<close>

record env =
  date_now :: int
  fetch_json :: "string \<Rightarrow> WordData option"
  math_random :: "nat \<Rightarrow> real"

definition fallback_words :: WordData where
  "fallback_words = [''hello'', ''world'', ''test'', ''example'', ''demo'']"

definition initial_state :: state where
  "initial_state =
     \<lparr>heap = [fallback_words], languageData = [(''en'', 0)], availableLanguages = [''en''],
      rateLimits = [], dataLoaded = False, fetched = [], randoms = 0\<rparr>"

definition alloc :: "WordData \<Rightarrow> state \<Rightarrow> addr \<times> state" where
  "alloc ws s = (length (heap s), s\<lparr>heap := heap s @ [ws]\<rparr>)"

text \<open>The word list stored for a language, read through the reference.\<close>

definition store_words :: "state \<Rightarrow> string \<Rightarrow> WordData option" where
  "store_words s lang = map_option (\<lambda>a. heap s ! a) (map_of (languageData s) lang)"

text \<open>Every stored reference points into the heap, and no key occurs twice.\<close>

definition wf_state :: "state \<Rightarrow> bool" where
  "wf_state s \<longleftrightarrow>
     distinct (map fst (languageData s)) \<and> (\<forall>a \<in> snd ` set (languageData s). a < length (heap s))"

section \<open>Loader\<close>

definition primary_url :: string where
  "primary_url =
     ''https://raw.githubusercontent.com/RazorSh4rk/random-word-api/master/words.json''"

definition language_url :: "string \<Rightarrow> string" where
  "language_url lang =
     ''https://raw.githubusercontent.com/RazorSh4rk/random-word-api/master/languages/''
       @ lang @ ''.json''"

definition languages :: "string list" where
  "languages = [''de'', ''es'', ''fr'', ''it'', ''pt-br'', ''ro'', ''zh'']"

text \<open>\<open>await fetch(url)\<close> followed by \<open>await response.json()\<close>.\<close>

definition fetch_words :: "env \<Rightarrow> string \<Rightarrow> state \<Rightarrow> WordData option \<times> state" where
  "fetch_words e url s = (fetch_json e url, s\<lparr>fetched := fetched s @ [url]\<rparr>)"

text \<open>\<open>languageData[lang] = words\<close>, where \<open>words\<close> is the array just parsed.\<close>

definition set_language :: "string \<Rightarrow> WordData \<Rightarrow> state \<Rightarrow> state" where
  "set_language lang ws s =
     (case alloc ws s of (a, s1) \<Rightarrow> s1\<lparr>languageData := AList.update lang a (languageData s1)\<rparr>)"

text \<open>One round of the \<open>for\<close> loop, with its own \<open>try\<close>/\<open>catch\<close>.\<close>

definition load_language :: "env \<Rightarrow> string \<Rightarrow> state \<Rightarrow> state" where
  "load_language e lang s =
     (case fetch_words e (language_url lang) s of
        (None, s1) \<Rightarrow> s1
      | (Some ws, s1) \<Rightarrow> set_language lang ws s1)"

text \<open>
  \<open>loadWordData\<close>: an exception of the primary fetch leaves the outer \<open>try\<close> block at once,
  before the loop and before \<open>availableLanguages\<close> is recomputed.
\<close>

definition loadWordData :: "env \<Rightarrow> state \<Rightarrow> state" where
  "loadWordData e s =
     (case fetch_words e primary_url s of
        (None, s1) \<Rightarrow> s1
      | (Some ws, s1) \<Rightarrow>
          (let s2 = set_language ''en'' ws s1;
               s3 = fold (load_language e) languages s2
           in s3\<lparr>availableLanguages := map fst (languageData s3)\<rparr>))"

text \<open>The guard that opens every data-serving handler.\<close>

definition ensure_loaded :: "env \<Rightarrow> state \<Rightarrow> state" where
  "ensure_loaded e s = (if \<not> dataLoaded s then (loadWordData e s)\<lparr>dataLoaded := True\<rparr> else s)"

section \<open>Responses and requests\<close>

text \<open>
  The body of a response is what \<open>JSON.stringify\<close> was given: an array of strings, an error
  object \<open>{error: message}\<close>, or a member of \<open>Object.prototype\<close> named by its key (a function,
  for which there is no JSON text, or the prototype object itself).
\<close>

datatype body = Json_array "string list" | Json_error string | Json_inherited string
  | Html_page | No_body

record response =
  status :: nat
  headers :: "(string \<times> string) list"
  body :: body

definition jsonResponse :: "body \<Rightarrow> nat \<Rightarrow> response" where
  "jsonResponse data st =
     \<lparr>status = st,
      headers = [(''Content-Type'', ''application/json''), (''Access-Control-Allow-Origin'', ''*'')],
      body = data\<rparr>"

definition errorResponse :: "string \<Rightarrow> nat \<Rightarrow> response" where
  "errorResponse message st = jsonResponse (Json_error message) st"

text \<open>
  Dispatch is done by the router library; a request is modelled together with the route it
  was dispatched to, the value of its \<open>CF-Connecting-IP\<close> header and its query parameters.
\<close>

datatype route = Root | Home | Languages | All | Word | Unmatched

record request =
  route :: route
  cf_connecting_ip :: "string option"
  query :: "(string \<times> string) list"

text \<open>An exception that leaves a handler.\<close>

datatype exn = TypeError

section \<open>Word selector\<close>

text \<open>
  \<open>xs.sort(() => Math.random() - 0.5)\<close> sorts the array in place. ECMAScript leaves the
  order produced with such a comparator to the implementation; the model is an insertion
  sort that places each element into the prefix sorted so far and asks the comparator, one
  draw of \<open>Math.random()\<close> per question, whether the element goes before the next one. The
  order it produces and the number of draws it consumes are those of this model, not of a
  particular engine. The properties proved below use only that the result is a
  rearrangement of the array, written back to the same array.
\<close>

fun insert_random :: "(nat \<Rightarrow> real) \<Rightarrow> 'a \<Rightarrow> 'a list \<Rightarrow> nat \<Rightarrow> 'a list \<times> nat" where
  "insert_random rnd x [] n = ([x], n)"
| "insert_random rnd x (y # ys) n =
     (if rnd n - 1 / 2 < 0 then (x # y # ys, Suc n)
      else (case insert_random rnd x ys (Suc n) of (zs, n1) \<Rightarrow> (y # zs, n1)))"

fun sort_loop :: "(nat \<Rightarrow> real) \<Rightarrow> 'a list \<Rightarrow> 'a list \<Rightarrow> nat \<Rightarrow> 'a list \<times> nat" where
  "sort_loop rnd [] acc n = (acc, n)"
| "sort_loop rnd (x # xs) acc n =
     (case insert_random rnd x acc n of (acc1, n1) \<Rightarrow> sort_loop rnd xs acc1 n1)"

definition sort_random :: "(nat \<Rightarrow> real) \<Rightarrow> 'a list \<Rightarrow> nat \<Rightarrow> 'a list \<times> nat" where
  "sort_random rnd xs n = sort_loop rnd xs [] n"

definition sort_in_place :: "env \<Rightarrow> addr \<Rightarrow> state \<Rightarrow> state" where
  "sort_in_place e a s =
     (case sort_random (math_random e) (heap s ! a) (randoms s) of
        (ws, n) \<Rightarrow> s\<lparr>heap := (heap s)[a := ws], randoms := n\<rparr>)"

text \<open>
  The part of the \<open>/word\<close> handler after the language check: \<open>words\<close> starts as the stored
  array itself (\<open>a\<close>), \<open>filter\<close> and \<open>slice\<close> make new arrays, \<open>sort\<close> works on the array
  \<open>words\<close> refers to at that point.
\<close>

definition select_words ::
  "env \<Rightarrow> jsnum \<Rightarrow> jsnum \<Rightarrow> jsnum \<Rightarrow> addr \<Rightarrow> state \<Rightarrow> (exn + response) \<times> state" where
  "select_words e number len diff a s =
     (case (if js_gt len (Num 0)
            then alloc (filter (\<lambda>word. Num (int (length word)) = len) (heap s ! a)) s
            else (a, s)) of
        (words, s1) \<Rightarrow>
          if js_gt len (Num 0) \<and> length (heap s1 ! words) = 0
          then (Inr (errorResponse ''No words found with the specified length'' 403), s1)
          else
            (let s2 = sort_in_place e words s1 in
             case (if js_ge diff (Num 1) \<and> js_le diff (Num 5) \<and> js_le number (Num 5)
                   then (case alloc (slice0 (js_times number (Num 10)) (heap s2 ! words)) s2 of
                           (filteredWords, s3) \<Rightarrow> (filteredWords, sort_in_place e filteredWords s3))
                   else (words, s2)) of
               (words1, s4) \<Rightarrow>
                 (case alloc (slice0 number (heap s4 ! words1)) s4 of
                    (result, s5) \<Rightarrow> (Inr (jsonResponse (Json_array (heap s5 ! result)) 200), s5))))"

section \<open>HTTP surface\<close>

definition param :: "request \<Rightarrow> string \<Rightarrow> string option" where
  "param req name = map_of (query req) name"

definition client_ip :: "request \<Rightarrow> string" where
  "client_ip req = or_default (cf_connecting_ip req) ''unknown''"

definition languages_handler :: "env \<Rightarrow> request \<Rightarrow> state \<Rightarrow> (exn + response) \<times> state" where
  "languages_handler e req s =
     (let s1 = ensure_loaded e s
      in (Inr (jsonResponse (Json_array (availableLanguages s1)) 200), s1))"

text \<open>
  In \<open>/all\<close> an inherited member passes the language check and is handed to \<open>jsonResponse\<close>.
\<close>

definition all_handler :: "env \<Rightarrow> request \<Rightarrow> state \<Rightarrow> (exn + response) \<times> state" where
  "all_handler e req s =
     (let s1 = ensure_loaded e s in
      case checkRateLimit (date_now e) (client_ip req) (rateLimits s1) of
        (admitted, rl) \<Rightarrow>
          (let s2 = s1\<lparr>rateLimits := rl\<rparr> in
           if \<not> admitted
           then (Inr (errorResponse ''You hit the rate limit, try again in a few seconds'' 403), s2)
           else
             (let lang = or_default (param req ''lang'') ''en'' in
              case get_prop (languageData s2) lang of
                Undefined \<Rightarrow> (Inr (errorResponse ''No translation for this language'' 403), s2)
              | Inherited \<Rightarrow> (Inr (jsonResponse (Json_inherited lang) 200), s2)
              | Own a \<Rightarrow> (Inr (jsonResponse (Json_array (heap s2 ! a)) 200), s2))))"

definition effective_number :: "request \<Rightarrow> jsnum" where
  "effective_number req =
     math_max (Num 1) (math_min (Num 100) (parseInt (or_default (param req ''number'') ''1'')))"

text \<open>
  In \<open>/word\<close> an inherited member passes the language check as well; it has neither a
  \<open>filter\<close> nor a \<open>sort\<close> method, so the first of the two calls that is reached throws.
\<close>

definition word_handler :: "env \<Rightarrow> request \<Rightarrow> state \<Rightarrow> (exn + response) \<times> state" where
  "word_handler e req s =
     (let s1 = ensure_loaded e s in
      case checkRateLimit (date_now e) (client_ip req) (rateLimits s1) of
        (admitted, rl) \<Rightarrow>
          (let s2 = s1\<lparr>rateLimits := rl\<rparr> in
           if \<not> admitted
           then (Inr (errorResponse ''You hit the rate limit, try again in a few seconds'' 403), s2)
           else
             (let number = effective_number req;
                  len = parseInt (or_default (param req ''length'') ''-1'');
                  lang = or_default (param req ''lang'') ''en'';
                  diff = parseInt (or_default (param req ''diff'') ''-1'')
              in case get_prop (languageData s2) lang of
                   Undefined \<Rightarrow> (Inr (errorResponse ''No translation for this language'' 403), s2)
                 | Inherited \<Rightarrow> (Inl TypeError, s2)
                 | Own a \<Rightarrow> select_words e number len diff a s2)))"

definition handle :: "env \<Rightarrow> request \<Rightarrow> state \<Rightarrow> (exn + response) \<times> state" where
  "handle e req s =
     (case route req of
        Root \<Rightarrow> (Inr \<lparr>status = 302, headers = [(''Location'', ''/home'')], body = No_body\<rparr>, s)
      | Home \<Rightarrow> (Inr \<lparr>status = 200, headers = [(''Content-Type'', ''text/html'')], body = Html_page\<rparr>, s)
      | Languages \<Rightarrow> languages_handler e req s
      | All \<Rightarrow> all_handler e req s
      | Word \<Rightarrow> word_handler e req s
      | Unmatched \<Rightarrow> (Inr (errorResponse ''Not found'' 404), s))"

text \<open>The state after the guard that opens the data-serving handlers.\<close>

definition after_guard :: "env \<Rightarrow> request \<Rightarrow> state \<Rightarrow> state" where
  "after_guard e req s =
     (if route req \<in> {Languages, All, Word} then ensure_loaded e s else s)"

text \<open>The entry of \<open>en\<close> and its place in the list of languages survive the Loader.\<close>

definition en_present :: "state \<Rightarrow> bool" where
  "en_present s \<longleftrightarrow> ''en'' \<in> fst ` set (languageData s) \<and> ''en'' \<in> set (availableLanguages s)"

text \<open>The states the process can be in: the initial one and any state a request leaves.\<close>

inductive reachable :: "state \<Rightarrow> bool" where
  reachable_initial: "reachable initial_state"
| reachable_handle: "reachable s \<Longrightarrow> reachable (snd (handle e req s))"

section \<open>Requests in flight together\<close>

text \<open>
  \<open>handle\<close> runs a request from its first statement to its last. The worker does that only
  when no other request is served meanwhile: a handler is an \<open>async\<close> function and is
  suspended at every \<open>await\<close>, and the guard reads
  \<open>if (!dataLoaded) { await loadWordData(); dataLoaded = true; }\<close>, so the flag is tested
  before the load and assigned only after it. The awaits are those of \<open>loadWordData\<close> (one
  remote fetch at a time) and the one on \<open>loadWordData\<close> itself; the code after the guard has
  none. A task is a request suspended at one of them: at the primary fetch, at the fetch
  of a secondary language with the languages still to come, or at the return of the load
  into the handler.
\<close>

datatype task = Primary request | Secondary request string "string list" | Returning request

datatype outcome = Suspended task state | Done "(exn + response) \<times> state"

text \<open>\<open>fetch(url)\<close> is called: the request goes out, and its answer comes later.\<close>

definition issue :: "string \<Rightarrow> state \<Rightarrow> state" where
  "issue url s = s\<lparr>fetched := fetched s @ [url]\<rparr>"

text \<open>
  The \<open>for\<close> loop moves on: it calls \<open>fetch\<close> for the next language and is suspended, or,
  with no language left, recomputes \<open>availableLanguages\<close> and returns.
\<close>

fun next_language :: "request \<Rightarrow> string list \<Rightarrow> state \<Rightarrow> outcome" where
  "next_language req [] s =
     Suspended (Returning req) (s\<lparr>availableLanguages := map fst (languageData s)\<rparr>)"
| "next_language req (lang # rest) s =
     Suspended (Secondary req lang rest) (issue (language_url lang) s)"

text \<open>
  A task runs on from its \<open>await\<close> to the next one, on the state as it is at that moment.
  The answer to the fetch it waited for is read from the environment of the moment. Back
  in the handler, \<open>dataLoaded = true\<close> is followed by the rest of the handler, which is
  \<open>handle\<close> with the guard passed.
\<close>

fun resume :: "env \<Rightarrow> task \<Rightarrow> state \<Rightarrow> outcome" where
  "resume e (Primary req) s =
     (case fetch_json e primary_url of
        None \<Rightarrow> Suspended (Returning req) s
      | Some ws \<Rightarrow> next_language req languages (set_language ''en'' ws s))"
| "resume e (Secondary req lang rest) s =
     (case fetch_json e (language_url lang) of
        None \<Rightarrow> next_language req rest s
      | Some ws \<Rightarrow> next_language req rest (set_language lang ws s))"
| "resume e (Returning req) s = Done (handle e req (s\<lparr>dataLoaded := True\<rparr>))"

text \<open>
  A request arrives and its handler starts: with the flag unset a data-serving handler
  calls \<open>loadWordData\<close>, which calls \<open>fetch\<close> for the primary URL and is suspended;
  otherwise the handler meets no \<open>await\<close> and runs to its end.
\<close>

definition arrive :: "env \<Rightarrow> request \<Rightarrow> state \<Rightarrow> outcome" where
  "arrive e req s =
     (if route req \<in> {Languages, All, Word} \<and> \<not> dataLoaded s
      then Suspended (Primary req) (issue primary_url s)
      else Done (handle e req s))"

text \<open>
  The worker: the module-level state, the suspended tasks and the answers sent so far. An
  event is the arrival of a request or the resumption of the suspended task at a position;
  the resumption of a task that is not there does nothing.
\<close>

record world =
  shared :: state
  pending :: "task list"
  sent :: "(exn + response) list"

datatype event = Arrive env request | Resume env nat

definition settle :: "nat option \<Rightarrow> outcome \<Rightarrow> world \<Rightarrow> world" where
  "settle i out w =
     (case out of
        Suspended t s \<Rightarrow>
          w\<lparr>shared := s,
            pending := (case i of None \<Rightarrow> pending w @ [t] | Some k \<Rightarrow> (pending w)[k := t])\<rparr>
      | Done (r, s) \<Rightarrow>
          w\<lparr>shared := s,
            pending := (case i of None \<Rightarrow> pending w
                        | Some k \<Rightarrow> take k (pending w) @ drop (Suc k) (pending w)),
            sent := sent w @ [r]\<rparr>)"

fun step :: "event \<Rightarrow> world \<Rightarrow> world" where
  "step (Arrive e req) w = settle None (arrive e req (shared w)) w"
| "step (Resume e i) w =
     (if i < length (pending w) then settle (Some i) (resume e (pending w ! i) (shared w)) w
      else w)"

fun steps :: "event list \<Rightarrow> world \<Rightarrow> world" where
  "steps [] w = w"
| "steps (ev # evs) w = steps evs (step ev w)"

definition initial_world :: world where
  "initial_world = \<lparr>shared = initial_state, pending = [], sent = []\<rparr>"

section \<open>Properties of the rate limiter\<close>

lemma map_of_purge_key:
  "map_of (purge_key now key rl) k = (if k = key then purged now (map_of rl k) else map_of rl k)"
  by (auto simp: purge_key_def get_prop_def purged_def AList.delete_conv' split: option.splits)

lemma map_of_fold_purge:
  "map_of (fold (purge_key now) ks rl) k = (if k \<in> set ks then purged now (map_of rl k) else map_of rl k)"
proof (induction ks arbitrary: rl)
  case Nil
  show ?case by simp
next
  case (Cons key ks)
  show ?case
    by (simp add: Cons.IH map_of_purge_key purged_def split: option.splits)
qed

lemma distinct_purge_key: "distinct (map fst rl) \<Longrightarrow> distinct (map fst (purge_key now key rl))"
  by (simp add: purge_key_def AList.distinct_delete split: property.splits)

lemma distinct_fold_purge: "distinct (map fst rl) \<Longrightarrow> distinct (map fst (fold (purge_key now) ks rl))"
  by (induction ks arbitrary: rl) (simp_all add: distinct_purge_key)

lemma checkRateLimit_admit_iff:
  "fst (checkRateLimit now ip rl) \<longleftrightarrow>
     (case get_prop rl ip of Undefined \<Rightarrow> True
      | Own t \<Rightarrow> t = 0 \<or> now - t > RATE_LIMIT_WINDOW | Inherited \<Rightarrow> False)"
  by (simp add: checkRateLimit_def Let_def)

lemma checkRateLimit_reject: "\<not> fst (checkRateLimit now ip rl) \<Longrightarrow> snd (checkRateLimit now ip rl) = rl"
  by (simp add: checkRateLimit_def Let_def split: if_splits)

lemma checkRateLimit_admit_map:
  assumes "fst (checkRateLimit now ip rl)"
  shows "map_of (snd (checkRateLimit now ip rl)) k =
           (if k = ip then Some now else purged now (map_of rl k))"
proof -
  let ?rl1 = "AList.update ip now rl"
  have snd_eq: "snd (checkRateLimit now ip rl) = fold (purge_key now) (map fst ?rl1) ?rl1"
    using assms by (simp add: checkRateLimit_def Let_def split: if_splits)
  have keys: "set (map fst ?rl1) = insert ip (fst ` set rl)"
    by (simp add: AList.dom_update)
  show ?thesis
  proof (cases "k = ip")
    case True
    then show ?thesis
      by (simp add: snd_eq map_of_fold_purge AList.update_conv' purged_def RATE_LIMIT_WINDOW_def del: set_map)
  next
    case False
    show ?thesis
    proof (cases "map_of rl k")
      case None
      then have "k \<notin> fst ` set rl" by (simp add: map_of_eq_None_iff)
      with False None show ?thesis
        by (simp add: snd_eq map_of_fold_purge keys AList.update_conv' purged_def del: set_map)
    next
      case (Some t)
      then have "k \<in> fst ` set rl" by (metis map_of_eq_None_iff option.distinct(1))
      with False Some show ?thesis
        by (simp add: snd_eq map_of_fold_purge keys AList.update_conv' del: set_map)
    qed
  qed
qed

lemma checkRateLimit_distinct:
  "distinct (map fst rl) \<Longrightarrow> distinct (map fst (snd (checkRateLimit now ip rl)))"
  by (simp add: checkRateLimit_def Let_def distinct_fold_purge AList.distinct_update)

text \<open>
  Claim C4. \<open>checkRateLimit\<close> admits a client exactly when the table holds no timestamp for
  it or more than 5000 ms have passed since the recorded one. On admit the client's entry
  becomes the current time, every other entry survives exactly when it is not older than
  5000 ms, and no entry older than that is left in the table. On reject the table is
  returned as it was. The client identifier is an address or \<open>unknown\<close>, not the name of a
  member of \<open>Object.prototype\<close>, and a recorded timestamp is a value of \<open>Date.now()\<close>, which
  is not 0; the table is an object, so no key occurs twice.
\<close>

theorem checkRateLimit_contract:
  assumes "ip \<notin> set object_prototype_names"
    and "map_of rl ip \<noteq> Some 0"
    and "distinct (map fst rl)"
  shows "(fst (checkRateLimit now ip rl) \<longleftrightarrow>
            map_of rl ip = None \<or> (\<exists>t. map_of rl ip = Some t \<and> now - t > 5000))
       \<and> (fst (checkRateLimit now ip rl) \<longrightarrow>
            map_of (snd (checkRateLimit now ip rl)) ip = Some now
          \<and> (\<forall>k t. k \<noteq> ip \<longrightarrow>
                (map_of (snd (checkRateLimit now ip rl)) k = Some t
                  \<longleftrightarrow> map_of rl k = Some t \<and> now - t \<le> 5000))
          \<and> (\<forall>(k, t) \<in> set (snd (checkRateLimit now ip rl)). now - t \<le> 5000))
       \<and> (\<not> fst (checkRateLimit now ip rl) \<longrightarrow> snd (checkRateLimit now ip rl) = rl)"
proof (intro conjI impI)
  show "fst (checkRateLimit now ip rl) \<longleftrightarrow>
          map_of rl ip = None \<or> (\<exists>t. map_of rl ip = Some t \<and> now - t > 5000)"
    using assms(1,2)
    by (cases "map_of rl ip")
       (simp_all add: checkRateLimit_admit_iff get_prop_def RATE_LIMIT_WINDOW_def)
next
  assume "\<not> fst (checkRateLimit now ip rl)"
  then show "snd (checkRateLimit now ip rl) = rl" by (rule checkRateLimit_reject)
next
  assume adm: "fst (checkRateLimit now ip rl)"
  let ?rl = "snd (checkRateLimit now ip rl)"
  show own: "map_of ?rl ip = Some now"
    by (simp add: checkRateLimit_admit_map [OF adm])
  show others: "\<forall>k t. k \<noteq> ip \<longrightarrow>
          (map_of ?rl k = Some t \<longleftrightarrow> map_of rl k = Some t \<and> now - t \<le> 5000)"
    by (auto simp: checkRateLimit_admit_map [OF adm] purged_def RATE_LIMIT_WINDOW_def
             split: option.splits if_splits)
  show "\<forall>(k, t) \<in> set ?rl. now - t \<le> 5000"
  proof (clarify)
    fix k t assume "(k, t) \<in> set ?rl"
    moreover have "distinct (map fst ?rl)"
      using assms(3) by (rule checkRateLimit_distinct)
    ultimately have m: "map_of ?rl k = Some t" by simp
    show "now - t \<le> 5000"
    proof (cases "k = ip")
      case True
      with m own show ?thesis by simp
    next
      case False
      with m others show ?thesis by blast
    qed
  qed
qed

theorem checkRateLimit_contract_witness:
  "fst (checkRateLimit 6501 ''203.0.113.7'' [(''198.51.100.2'', 1000), (''203.0.113.7'', 1500)])
   \<and> map_of (snd (checkRateLimit 6501 ''203.0.113.7''
        [(''198.51.100.2'', 1000), (''203.0.113.7'', 1500)])) ''203.0.113.7'' = Some 6501
   \<and> map_of (snd (checkRateLimit 6501 ''203.0.113.7''
        [(''198.51.100.2'', 1000), (''203.0.113.7'', 1500)])) ''198.51.100.2'' = None"
proof -
  let ?rl = "[(''198.51.100.2'', 1000), (''203.0.113.7'', 1500 :: int)]"
  have h1: "''203.0.113.7'' \<notin> set object_prototype_names"
    by (simp add: object_prototype_names_def)
  have h2: "map_of ?rl ''203.0.113.7'' \<noteq> Some 0" by simp
  have h3: "distinct (map fst ?rl)" by simp
  have admitted: "fst (checkRateLimit 6501 ''203.0.113.7'' ?rl)"
    using checkRateLimit_contract [OF h1 h2 h3, of 6501] by simp
  have "map_of (snd (checkRateLimit 6501 ''203.0.113.7'' ?rl)) ''198.51.100.2'' \<noteq> Some t" for t
    using checkRateLimit_contract [OF h1 h2 h3, of 6501] admitted by auto
  then have "map_of (snd (checkRateLimit 6501 ''203.0.113.7'' ?rl)) ''198.51.100.2'' = None"
    by (cases "map_of (snd (checkRateLimit 6501 ''203.0.113.7'' ?rl)) ''198.51.100.2''") auto
  with admitted show ?thesis
    using checkRateLimit_contract [OF h1 h2 h3, of 6501] by simp
qed

text \<open>
  The window test is strict: a check made exactly 5000 ms after the admitted one (at 6000,
  after an admitted check at 1000) is rejected.
\<close>

theorem admitted_at_exactly_5000_counterexample:
  "fst (checkRateLimit 1000 ''203.0.113.7'' [])
   \<and> \<not> fst (checkRateLimit 6000 ''203.0.113.7'' (snd (checkRateLimit 1000 ''203.0.113.7'' [])))"
  by (simp add: checkRateLimit_def get_prop_def purge_key_def object_prototype_names_def
        RATE_LIMIT_WINDOW_def)

lemma checks_keeps_entry:
  assumes "ip \<notin> set object_prototype_names"
    and "\<forall>(t, c) \<in> set cs. c \<noteq> ip \<and> t \<le> t1"
    and "map_of rl ip = Some t0 \<or> (map_of rl ip = None \<and> t1 - t0 > 5000)"
  shows "map_of (checks cs rl) ip = Some t0 \<or> (map_of (checks cs rl) ip = None \<and> t1 - t0 > 5000)"
  using assms(2,3)
proof (induction cs arbitrary: rl)
  case Nil
  then show ?case by simp
next
  case (Cons tc cs)
  obtain t c where tc: "tc = (t, c)" by (cases tc)
  from Cons.prems(1) tc have c: "c \<noteq> ip" and t: "t \<le> t1" by auto
  let ?rl = "snd (checkRateLimit t c rl)"
  have "map_of ?rl ip = Some t0 \<or> (map_of ?rl ip = None \<and> t1 - t0 > 5000)"
  proof (cases "fst (checkRateLimit t c rl)")
    case False
    then have "?rl = rl" by (rule checkRateLimit_reject)
    with Cons.prems(2) show ?thesis by simp
  next
    case True
    have "map_of ?rl ip = purged t (map_of rl ip)"
      using c by (simp add: checkRateLimit_admit_map [OF True])
    with Cons.prems(2) t show ?thesis
      by (auto simp: purged_def RATE_LIMIT_WINDOW_def split: if_splits)
  qed
  moreover from Cons.prems(1) have "\<forall>(t, c) \<in> set cs. c \<noteq> ip \<and> t \<le> t1" by simp
  ultimately show ?case
    using Cons.IH [of ?rl] by (simp add: tc)
qed

text \<open>
  Claim C5, amended. After an admitted check of a client at time \<open>t0\<close>, and whatever checks
  of other clients happen up to time \<open>t1\<close>, the next check of the same client at \<open>t1\<close> is
  admitted exactly when more than 5000 ms have passed: it is rejected up to and including
  5000 ms, and admitted from 5001 ms on.
\<close>

theorem second_check_admitted_iff_window_exceeded:
  assumes "ip \<notin> set object_prototype_names"
    and "t0 \<noteq> 0"
    and "fst (checkRateLimit t0 ip rl)"
    and "\<forall>(t, c) \<in> set cs. c \<noteq> ip \<and> t \<le> t1"
  shows "fst (checkRateLimit t1 ip (checks cs (snd (checkRateLimit t0 ip rl)))) \<longleftrightarrow> t1 - t0 > 5000"
proof -
  let ?rl = "snd (checkRateLimit t0 ip rl)"
  have "map_of ?rl ip = Some t0"
    by (simp add: checkRateLimit_admit_map [OF assms(3)])
  then have "map_of (checks cs ?rl) ip = Some t0
      \<or> (map_of (checks cs ?rl) ip = None \<and> t1 - t0 > 5000)"
    using checks_keeps_entry [OF assms(1,4), of ?rl t0] by simp
  then show ?thesis
    using assms(1,2)
    by (auto simp: checkRateLimit_admit_iff get_prop_def RATE_LIMIT_WINDOW_def)
qed

theorem second_check_admitted_iff_window_exceeded_witness:
  "\<not> fst (checkRateLimit 6000 ''203.0.113.7''
            (checks [(2000, ''198.51.100.2'')] (snd (checkRateLimit 1000 ''203.0.113.7'' []))))
   \<and> fst (checkRateLimit 6001 ''203.0.113.7''
            (checks [(2000, ''198.51.100.2'')] (snd (checkRateLimit 1000 ''203.0.113.7'' []))))"
proof -
  have h1: "''203.0.113.7'' \<notin> set object_prototype_names"
    by (simp add: object_prototype_names_def)
  have h2: "(1000 :: int) \<noteq> 0" by simp
  have h3: "fst (checkRateLimit 1000 ''203.0.113.7'' [])"
    by (simp add: checkRateLimit_admit_iff get_prop_def h1)
  have h4: "\<forall>(t, c) \<in> set [(2000 :: int, ''198.51.100.2'')]. c \<noteq> ''203.0.113.7'' \<and> t \<le> 6000"
    by simp
  have h5: "\<forall>(t, c) \<in> set [(2000 :: int, ''198.51.100.2'')]. c \<noteq> ''203.0.113.7'' \<and> t \<le> 6001"
    by simp
  show ?thesis
    using second_check_admitted_iff_window_exceeded [OF h1 h2 h3 h4]
          second_check_admitted_iff_window_exceeded [OF h1 h2 h3 h5]
    by simp
qed

text \<open>
  The table of a running worker: no key twice, and only values of \<open>Date.now()\<close> as
  timestamps, so none of them 0 as long as the clock does not read 0.
\<close>

lemma checkRateLimit_nonzero:
  assumes "0 \<notin> snd ` set rl" and "now \<noteq> 0" and "distinct (map fst rl)"
  shows "0 \<notin> snd ` set (snd (checkRateLimit now ip rl))"
proof (cases "fst (checkRateLimit now ip rl)")
  case False
  with assms(1) show ?thesis by (simp add: checkRateLimit_reject)
next
  case True
  have "t \<noteq> 0" if "(k, t) \<in> set (snd (checkRateLimit now ip rl))" for k t
  proof -
    have "distinct (map fst (snd (checkRateLimit now ip rl)))"
      using assms(3) by (rule checkRateLimit_distinct)
    with that have "map_of (snd (checkRateLimit now ip rl)) k = Some t" by simp
    then have "t = now \<or> map_of rl k = Some t"
      by (auto simp: checkRateLimit_admit_map [OF True] purged_def
               split: if_splits option.splits)
    with assms(1,2) show ?thesis by (force dest: map_of_SomeD)
  qed
  then show ?thesis by force
qed

text \<open>
  A client identifier that names a member of \<open>Object.prototype\<close> is never admitted: the
  inherited member is read as its last request.
\<close>

lemma checkRateLimit_inherited_name:
  "ip \<in> set object_prototype_names \<Longrightarrow> map_of rl ip = None
     \<Longrightarrow> checkRateLimit now ip rl = (False, rl)"
  by (simp add: checkRateLimit_def get_prop_def)

section \<open>Properties of the loader\<close>

lemma values_update: "snd ` set (AList.update k v al) \<subseteq> insert v (snd ` set al)"
  by (induction al) auto

lemma set_language_fields:
  "heap (set_language lang ws s) = heap s @ [ws]"
  "languageData (set_language lang ws s) = AList.update lang (length (heap s)) (languageData s)"
  "availableLanguages (set_language lang ws s) = availableLanguages s"
  "rateLimits (set_language lang ws s) = rateLimits s"
  "dataLoaded (set_language lang ws s) = dataLoaded s"
  "fetched (set_language lang ws s) = fetched s"
  "randoms (set_language lang ws s) = randoms s"
  by (simp_all add: set_language_def alloc_def)

lemma wf_state_set_language:
  assumes "wf_state s"
  shows "wf_state (set_language lang ws s)"
proof -
  have "a < Suc (length (heap s))"
    if "a \<in> snd ` set (AList.update lang (length (heap s)) (languageData s))" for a
  proof -
    from that values_update [of lang "length (heap s)" "languageData s"]
    have "a = length (heap s) \<or> a \<in> snd ` set (languageData s)" by blast
    with assms show ?thesis by (auto simp: wf_state_def less_Suc_eq)
  qed
  with assms show ?thesis
    by (simp add: wf_state_def set_language_fields AList.distinct_update)
qed

lemma store_words_set_language:
  assumes "wf_state s"
  shows "store_words (set_language lang ws s) k = (if k = lang then Some ws else store_words s k)"
proof (cases "k = lang")
  case True
  then show ?thesis
    by (simp add: store_words_def set_language_fields AList.update_conv')
next
  case False
  show ?thesis
  proof (cases "map_of (languageData s) k")
    case None
    with False show ?thesis
      by (simp add: store_words_def set_language_fields AList.update_conv')
  next
    case (Some a)
    then have "(k, a) \<in> set (languageData s)" by (rule map_of_SomeD)
    then have "a \<in> snd ` set (languageData s)" by force
    with assms have "a < length (heap s)" by (auto simp: wf_state_def)
    with False Some show ?thesis
      by (simp add: store_words_def set_language_fields AList.update_conv' nth_append)
  qed
qed

lemma load_language_fields:
  "fetched (load_language e lang s) = fetched s @ [language_url lang]"
  "availableLanguages (load_language e lang s) = availableLanguages s"
  "rateLimits (load_language e lang s) = rateLimits s"
  "dataLoaded (load_language e lang s) = dataLoaded s"
  "randoms (load_language e lang s) = randoms s"
  by (simp_all add: load_language_def fetch_words_def set_language_fields split: option.splits)

lemma wf_state_load_language: "wf_state s \<Longrightarrow> wf_state (load_language e lang s)"
proof -
  assume wf: "wf_state s"
  have "wf_state (s\<lparr>fetched := fetched s @ [language_url lang]\<rparr>)"
    using wf by (simp add: wf_state_def)
  then show ?thesis
    by (simp add: load_language_def fetch_words_def wf_state_set_language split: option.splits)
qed

lemma store_words_fetched_update [simp]: "store_words (s\<lparr>fetched := f\<rparr>) k = store_words s k"
  by (simp add: store_words_def)

lemma wf_state_fetched_update [simp]: "wf_state (s\<lparr>fetched := f\<rparr>) = wf_state s"
  by (simp add: wf_state_def)

lemma store_words_load_language:
  assumes "wf_state s"
  shows "store_words (load_language e lang s) k =
           (if k = lang
            then (case fetch_json e (language_url lang) of Some ws \<Rightarrow> Some ws | None \<Rightarrow> store_words s k)
            else store_words s k)"
  using assms
  by (simp add: load_language_def fetch_words_def store_words_set_language split: option.splits)

lemma fetched_fold_load:
  "fetched (fold (load_language e) ls s) = fetched s @ map language_url ls"
  by (induction ls arbitrary: s) (simp_all add: load_language_fields)

lemma wf_state_fold_load: "wf_state s \<Longrightarrow> wf_state (fold (load_language e) ls s)"
  by (induction ls arbitrary: s) (simp_all add: wf_state_load_language)

lemma store_words_fold_load:
  assumes "wf_state s"
  shows "store_words (fold (load_language e) ls s) k =
           (if k \<in> set ls
            then (case fetch_json e (language_url k) of Some ws \<Rightarrow> Some ws | None \<Rightarrow> store_words s k)
            else store_words s k)"
  using assms
proof (induction ls arbitrary: s)
  case Nil
  show ?case by simp
next
  case (Cons l ls)
  have wf: "wf_state (load_language e l s)"
    using Cons.prems by (rule wf_state_load_language)
  show ?case
    using Cons.prems
    by (simp add: Cons.IH [OF wf] store_words_load_language split: option.splits)
qed

lemma loadWordData_primary_failure:
  "fetch_json e primary_url = None \<Longrightarrow> loadWordData e s = s\<lparr>fetched := fetched s @ [primary_url]\<rparr>"
  by (simp add: loadWordData_def fetch_words_def)

lemma store_words_availableLanguages_update [simp]:
  "store_words (s\<lparr>availableLanguages := f\<rparr>) k = store_words s k"
  by (simp add: store_words_def)

text \<open>
  Claim C2, amended. In a run of the Loader from a well-formed state, when the primary fetch
  succeeds, the primary URL and the URL of each of the seven secondary codes are fetched in
  order, \<open>en\<close> is written, and each secondary language ends with the list that was fetched
  for it, or, when its fetch or parse failed, with the entry it had before the run (none if
  it had none): whichever secondary languages fail, the others are fetched and written.
  When the primary fetch fails the run ends there: nothing but the record of that one fetch
  changes, and no secondary language is fetched.
\<close>

theorem secondary_failures_are_isolated:
  assumes "wf_state s"
  shows "(\<forall>ws. fetch_json e primary_url = Some ws \<longrightarrow>
            fetched (loadWordData e s) = fetched s @ primary_url # map language_url languages
          \<and> store_words (loadWordData e s) ''en'' = Some ws
          \<and> (\<forall>l \<in> set languages.
                store_words (loadWordData e s) l =
                  (case fetch_json e (language_url l) of
                     Some ws1 \<Rightarrow> Some ws1
                   | None \<Rightarrow> store_words s l)))
       \<and> (fetch_json e primary_url = None \<longrightarrow>
            loadWordData e s = s\<lparr>fetched := fetched s @ [primary_url]\<rparr>)"
proof (intro conjI allI impI ballI)
  assume "fetch_json e primary_url = None"
  then show "loadWordData e s = s\<lparr>fetched := fetched s @ [primary_url]\<rparr>"
    by (rule loadWordData_primary_failure)
next
  fix ws assume ok: "fetch_json e primary_url = Some ws"
  let ?s1 = "s\<lparr>fetched := fetched s @ [primary_url]\<rparr>"
  let ?s2 = "set_language ''en'' ws ?s1"
  let ?s3 = "fold (load_language e) languages ?s2"
  have load: "loadWordData e s = ?s3\<lparr>availableLanguages := map fst (languageData ?s3)\<rparr>"
    using ok by (simp add: loadWordData_def fetch_words_def Let_def)
  have wf1: "wf_state ?s1" using assms by simp
  have wf2: "wf_state ?s2" using wf1 by (rule wf_state_set_language)
  show "fetched (loadWordData e s) = fetched s @ primary_url # map language_url languages"
    by (simp add: load fetched_fold_load set_language_fields)
  have en: "''en'' \<notin> set languages" by (simp add: languages_def)
  show "store_words (loadWordData e s) ''en'' = Some ws"
    using en by (simp add: load store_words_fold_load [OF wf2] store_words_set_language [OF wf1])
  fix l assume l: "l \<in> set languages"
  with en have "l \<noteq> ''en''" by auto
  with l show "store_words (loadWordData e s) l =
      (case fetch_json e (language_url l) of Some ws1 \<Rightarrow> Some ws1 | None \<Rightarrow> store_words s l)"
    by (simp add: load store_words_fold_load [OF wf2] store_words_set_language [OF wf1]
          split: option.splits)
qed

lemma wf_state_initial: "wf_state initial_state"
  by (simp add: wf_state_def initial_state_def)

theorem secondary_failures_are_isolated_witness:
  "store_words
     (loadWordData
        \<lparr>date_now = 1000,
         fetch_json = (\<lambda>url. if url = language_url ''es'' then None else Some [''mot'']),
         math_random = (\<lambda>n. 0)\<rparr>
        initial_state) ''en'' = Some [''mot'']
   \<and> store_words
     (loadWordData
        \<lparr>date_now = 1000,
         fetch_json = (\<lambda>url. if url = language_url ''es'' then None else Some [''mot'']),
         math_random = (\<lambda>n. 0)\<rparr>
        initial_state) ''es'' = None
   \<and> store_words
     (loadWordData
        \<lparr>date_now = 1000,
         fetch_json = (\<lambda>url. if url = language_url ''es'' then None else Some [''mot'']),
         math_random = (\<lambda>n. 0)\<rparr>
        initial_state) ''fr'' = Some [''mot'']"
proof -
  let ?e = "\<lparr>date_now = 1000,
         fetch_json = (\<lambda>url. if url = language_url ''es'' then None else Some [''mot'']),
         math_random = (\<lambda>n. 0)\<rparr>"
  have primary: "fetch_json ?e primary_url = Some [''mot'']"
    by (simp add: primary_url_def language_url_def)
  have es: "fetch_json ?e (language_url ''es'') = None" by simp
  have fr: "fetch_json ?e (language_url ''fr'') = Some [''mot'']"
    by (simp add: language_url_def)
  have mem: "''es'' \<in> set languages" "''fr'' \<in> set languages"
    by (simp_all add: languages_def)
  have prior: "store_words initial_state ''es'' = None"
    by (simp add: store_words_def initial_state_def)
  from secondary_failures_are_isolated [OF wf_state_initial, of ?e] primary
  have "store_words (loadWordData ?e initial_state) ''en'' = Some [''mot'']"
    and "\<forall>l \<in> set languages. store_words (loadWordData ?e initial_state) l =
           (case fetch_json ?e (language_url l) of Some ws1 \<Rightarrow> Some ws1
            | None \<Rightarrow> store_words initial_state l)"
    by blast+
  with mem es fr prior show ?thesis by (simp del: env.simps)
qed

text \<open>
  A failure of the primary fetch alone keeps \<open>de\<close>, whose fetch would succeed, from being
  fetched and stored; and the list of secondary codes has seven entries.
\<close>

theorem primary_failure_aborts_load_counterexample:
  "fetch_json
     \<lparr>date_now = 1000,
      fetch_json = (\<lambda>url. if url = primary_url then None else Some [''Haus'']),
      math_random = (\<lambda>n. 0)\<rparr> (language_url ''de'') = Some [''Haus'']
   \<and> store_words
       (loadWordData
          \<lparr>date_now = 1000,
           fetch_json = (\<lambda>url. if url = primary_url then None else Some [''Haus'']),
           math_random = (\<lambda>n. 0)\<rparr>
          initial_state) ''de'' = None
   \<and> language_url ''de'' \<notin> set (fetched
       (loadWordData
          \<lparr>date_now = 1000,
           fetch_json = (\<lambda>url. if url = primary_url then None else Some [''Haus'']),
           math_random = (\<lambda>n. 0)\<rparr>
          initial_state))
   \<and> length languages = 7"
  by (simp add: loadWordData_def fetch_words_def store_words_def initial_state_def
        primary_url_def language_url_def languages_def)

section \<open>Properties of the word selector and the handlers\<close>

lemma mset_insert_random: "mset (fst (insert_random rnd x ys n)) = add_mset x (mset ys)"
proof (induction ys arbitrary: n)
  case Nil
  show ?case by simp
next
  case (Cons y ys)
  obtain zs n1 where rest: "insert_random rnd x ys (Suc n) = (zs, n1)"
    by (cases "insert_random rnd x ys (Suc n)")
  then have "mset zs = add_mset x (mset ys)"
    using Cons.IH [of "Suc n"] by simp
  then show ?case by (simp add: rest)
qed

lemma mset_sort_loop: "mset (fst (sort_loop rnd xs acc n)) = mset xs + mset acc"
proof (induction xs arbitrary: acc n)
  case Nil
  show ?case by simp
next
  case (Cons x xs)
  obtain acc1 n1 where ins: "insert_random rnd x acc n = (acc1, n1)"
    by (cases "insert_random rnd x acc n")
  then have "mset acc1 = add_mset x (mset acc)"
    using mset_insert_random [of rnd x acc n] by simp
  then show ?case by (simp add: ins Cons.IH)
qed

lemma mset_sort_random: "mset (fst (sort_random rnd xs n)) = mset xs"
  by (simp add: sort_random_def mset_sort_loop)

lemma set_sort_random: "set (fst (sort_random rnd xs n)) = set xs"
  using mset_sort_random [of rnd xs n] by (rule mset_eq_setD)

lemma sort_in_place_fields:
  "languageData (sort_in_place e a s) = languageData s"
  "availableLanguages (sort_in_place e a s) = availableLanguages s"
  "rateLimits (sort_in_place e a s) = rateLimits s"
  "dataLoaded (sort_in_place e a s) = dataLoaded s"
  "fetched (sort_in_place e a s) = fetched s"
  "length (heap (sort_in_place e a s)) = length (heap s)"
  by (simp_all add: sort_in_place_def split: prod.splits)

lemma sort_in_place_heap:
  "heap (sort_in_place e a s) = (heap s)[a := fst (sort_random (math_random e) (heap s ! a) (randoms s))]"
  by (simp add: sort_in_place_def split: prod.splits)

lemma select_words_frame:
  assumes "select_words e number len diff a s = (r, s1)"
  shows "languageData s1 = languageData s \<and> availableLanguages s1 = availableLanguages s
       \<and> rateLimits s1 = rateLimits s \<and> dataLoaded s1 = dataLoaded s \<and> fetched s1 = fetched s
       \<and> length (heap s) \<le> length (heap s1)"
  using assms
  by (auto simp: select_words_def alloc_def Let_def sort_in_place_fields
           split: if_splits prod.splits)

text \<open>The two outcomes of the selection.\<close>

lemma select_words_result:
  assumes "select_words e number len diff a s = (r, s1)"
  shows "(js_gt len (Num 0) \<and> filter (\<lambda>word. Num (int (length word)) = len) (heap s ! a) = []
            \<and> r = Inr (errorResponse ''No words found with the specified length'' 403))
       \<or> (\<exists>pool. r = Inr (jsonResponse (Json_array (slice0 number pool)) 200)
            \<and> (js_gt len (Num 0) \<longrightarrow>
                 filter (\<lambda>word. Num (int (length word)) = len) (heap s ! a) \<noteq> []
               \<and> set pool \<subseteq> set (filter (\<lambda>word. Num (int (length word)) = len) (heap s ! a))))"
proof (cases "js_gt len (Num 0)")
  case False
  with assms show ?thesis
    by (auto simp: select_words_def alloc_def Let_def sort_in_place_fields
             split: if_splits prod.splits)
next
  case True
  let ?F = "filter (\<lambda>word. Num (int (length word)) = len) (heap s ! a)"
  show ?thesis
  proof (cases "?F = []")
    case True
    with \<open>js_gt len (Num 0)\<close> assms show ?thesis
      by (simp add: select_words_def alloc_def)
  next
    case False
    let ?S = "fst (sort_random (math_random e) ?F (randoms s))"
    have S: "set ?S = set ?F" by (rule set_sort_random)
    have sub: "set (slice0 n ?S) \<subseteq> set ?F" for n
      using S by (cases n) (auto dest: in_set_takeD)
    show ?thesis
    proof (cases "js_ge diff (Num 1) \<and> js_le diff (Num 5) \<and> js_le number (Num 5)")
      case no_diff: False
      from no_diff False \<open>js_gt len (Num 0)\<close> assms
      have "r = Inr (jsonResponse (Json_array (slice0 number ?S)) 200)"
        by (auto simp: select_words_def alloc_def Let_def sort_in_place_heap
              sort_in_place_fields nth_append split: prod.splits)
      with False \<open>js_gt len (Num 0)\<close> S show ?thesis by blast
    next
      case with_diff: True
      from with_diff False \<open>js_gt len (Num 0)\<close> assms
      have "\<exists>n. r = Inr (jsonResponse (Json_array (slice0 number
               (fst (sort_random (math_random e) (slice0 (js_times number (Num 10)) ?S) n)))) 200)"
        by (auto simp: select_words_def alloc_def Let_def sort_in_place_heap
              sort_in_place_fields nth_append split: prod.splits)
      then obtain n where r: "r = Inr (jsonResponse (Json_array (slice0 number
               (fst (sort_random (math_random e) (slice0 (js_times number (Num 10)) ?S) n)))) 200)"
        by blast
      have "set (fst (sort_random (math_random e) (slice0 (js_times number (Num 10)) ?S) n))
              \<subseteq> set ?F"
        using sub [of "js_times number (Num 10)"] by (simp add: set_sort_random)
      with r False \<open>js_gt len (Num 0)\<close> show ?thesis by blast
    qed
  qed
qed

lemma fold_load_language_fields:
  "rateLimits (fold (load_language e) ls s) = rateLimits s"
  "dataLoaded (fold (load_language e) ls s) = dataLoaded s"
  "randoms (fold (load_language e) ls s) = randoms s"
  by (induction ls arbitrary: s) (simp_all add: load_language_fields)

lemma loadWordData_fields:
  "rateLimits (loadWordData e s) = rateLimits s"
  "dataLoaded (loadWordData e s) = dataLoaded s"
  "randoms (loadWordData e s) = randoms s"
  by (simp_all add: loadWordData_def fetch_words_def Let_def fold_load_language_fields
        set_language_fields split: option.splits)

lemma ensure_loaded_fields:
  "rateLimits (ensure_loaded e s) = rateLimits s"
  "dataLoaded (ensure_loaded e s)"
  "randoms (ensure_loaded e s) = randoms s"
  by (simp_all add: ensure_loaded_def loadWordData_fields)

lemma ensure_loaded_idle: "dataLoaded s \<Longrightarrow> ensure_loaded e s = s"
  by (simp add: ensure_loaded_def)

lemma store_words_rateLimits_update [simp]:
  "store_words (s\<lparr>rateLimits := rl\<rparr>) k = store_words s k"
  by (simp add: store_words_def)

lemma status_errorResponse [simp]: "status (errorResponse msg st) = st"
  by (simp add: errorResponse_def jsonResponse_def)

lemma status_jsonResponse [simp]: "status (jsonResponse b st) = st"
  by (simp add: jsonResponse_def)

lemma body_jsonResponse [simp]: "body (jsonResponse b st) = b"
  by (simp add: jsonResponse_def)

lemma errorResponse_eq_iff [simp]:
  "errorResponse m st = errorResponse m1 st1 \<longleftrightarrow> m = m1 \<and> st = st1"
  by (auto simp: errorResponse_def jsonResponse_def)

lemma errorResponse_neq_array [simp]:
  "errorResponse m st \<noteq> jsonResponse (Json_array ws) st1"
  "jsonResponse (Json_array ws) st1 \<noteq> errorResponse m st"
  by (auto simp: errorResponse_def jsonResponse_def)

text \<open>What the \<open>/word\<close> handler returns, case by case.\<close>

lemma word_handler_result:
  assumes "word_handler e req s = (r, s1)"
  defines "s0 \<equiv> ensure_loaded e s"
  defines "lang \<equiv> or_default (param req ''lang'') ''en''"
  defines "len \<equiv> parseInt (or_default (param req ''length'') ''-1'')"
  shows "(\<not> fst (checkRateLimit (date_now e) (client_ip req) (rateLimits s))
            \<and> r = Inr (errorResponse ''You hit the rate limit, try again in a few seconds'' 403))
       \<or> (fst (checkRateLimit (date_now e) (client_ip req) (rateLimits s)) \<and>
           ((get_prop (languageData s0) lang = Undefined
               \<and> r = Inr (errorResponse ''No translation for this language'' 403))
          \<or> (get_prop (languageData s0) lang = Inherited \<and> r = Inl TypeError)
          \<or> (\<exists>a. get_prop (languageData s0) lang = Own a \<and>
                ((js_gt len (Num 0)
                    \<and> filter (\<lambda>word. Num (int (length word)) = len) (heap s0 ! a) = []
                    \<and> r = Inr (errorResponse ''No words found with the specified length'' 403))
               \<or> (\<exists>pool. r = Inr (jsonResponse (Json_array (slice0 (effective_number req) pool)) 200)
                    \<and> (js_gt len (Num 0) \<longrightarrow>
                         filter (\<lambda>word. Num (int (length word)) = len) (heap s0 ! a) \<noteq> []
                       \<and> set pool \<subseteq> set (filter (\<lambda>word. Num (int (length word)) = len)
                                              (heap s0 ! a))))))))"
proof -
  obtain admitted rl where chk:
    "checkRateLimit (date_now e) (client_ip req) (rateLimits s) = (admitted, rl)"
    by (cases "checkRateLimit (date_now e) (client_ip req) (rateLimits s)")
  let ?s2 = "s0\<lparr>rateLimits := rl\<rparr>"
  show ?thesis
  proof (cases admitted)
    case False
    with assms(1) chk show ?thesis
      by (simp add: word_handler_def Let_def s0_def ensure_loaded_fields)
  next
    case True
    show ?thesis
    proof (cases "get_prop (languageData s0) lang")
      case Undefined
      with True assms(1) chk show ?thesis
        by (simp add: word_handler_def Let_def s0_def lang_def ensure_loaded_fields)
    next
      case Inherited
      with True assms(1) chk show ?thesis
        by (simp add: word_handler_def Let_def s0_def lang_def ensure_loaded_fields)
    next
      case (Own a)
      with True assms(1) chk
      have "select_words e (effective_number req) len
              (parseInt (or_default (param req ''diff'') ''-1'')) a ?s2 = (r, s1)"
        by (simp add: word_handler_def Let_def s0_def lang_def len_def ensure_loaded_fields)
      from select_words_result [OF this] Own True chk show ?thesis by auto
    qed
  qed
qed

lemma length_slice0: "0 \<le> m \<Longrightarrow> int (length (slice0 (Num m) xs)) \<le> m"
  by simp

text \<open>
  Claim C6. When the \<open>number\<close> parameter of a \<open>/word\<close> request (or its default) parses as
  an integer \<open>n\<close>, the count the handler uses is \<open>n\<close> clamped into the range from 1 to 100:
  1 for values below 1, 100 for values above 100, \<open>n\<close> itself otherwise. Every response
  with status 200 carries an array of at most that many words.
\<close>

theorem word_count_clamped:
  assumes "parseInt (or_default (param req ''number'') ''1'') = Num n"
  shows "\<exists>m. effective_number req = Num m \<and> 1 \<le> m \<and> m \<le> 100
           \<and> (n < 1 \<longrightarrow> m = 1) \<and> (100 < n \<longrightarrow> m = 100) \<and> (1 \<le> n \<and> n \<le> 100 \<longrightarrow> m = n)
           \<and> (\<forall>resp s1. word_handler e req s = (Inr resp, s1) \<and> status resp = 200 \<longrightarrow>
                 (\<exists>ws. body resp = Json_array ws \<and> int (length ws) \<le> m))"
proof -
  let ?m = "max 1 (min 100 n)"
  have eff: "effective_number req = Num ?m"
    by (simp add: effective_number_def assms)
  have "\<exists>ws. body resp = Json_array ws \<and> int (length ws) \<le> ?m"
    if "word_handler e req s = (Inr resp, s1)" and "status resp = 200" for resp s1
  proof -
    from word_handler_result [OF that(1)] that(2)
    obtain pool where "resp = jsonResponse (Json_array (slice0 (effective_number req) pool)) 200"
      by auto
    then have "body resp = Json_array (slice0 (Num ?m) pool)" by (simp add: eff)
    moreover have "int (length (slice0 (Num ?m) pool)) \<le> ?m"
      by (rule length_slice0) simp
    ultimately show ?thesis by blast
  qed
  with eff show ?thesis by (intro exI [of _ ?m]) auto
qed

lemmas eval_defs =
  handle_def word_handler_def all_handler_def languages_handler_def ensure_loaded_def
  loadWordData_def fetch_words_def checkRateLimit_def get_prop_def purge_key_def
  object_prototype_names_def client_ip_def or_default_def param_def effective_number_def
  parseInt_def is_white_space_def is_digit_def digit_value_def digits_value_def
  select_words_def alloc_def sort_in_place_def sort_random_def store_words_def
  initial_state_def fallback_words_def RATE_LIMIT_WINDOW_def Let_def

theorem word_count_clamped_witness:
  "effective_number
      \<lparr>route = Word, cf_connecting_ip = Some ''203.0.113.7'', query = [(''number'', ''250'')]\<rparr>
     = Num 100
   \<and> (\<exists>ws. fst (word_handler
        \<lparr>date_now = 1700000000000, fetch_json = (\<lambda>url. None), math_random = (\<lambda>n. 1 / 4)\<rparr>
        \<lparr>route = Word, cf_connecting_ip = Some ''203.0.113.7'', query = [(''number'', ''250'')]\<rparr>
        initial_state) = Inr (jsonResponse (Json_array ws) 200) \<and> int (length ws) \<le> 100)"
proof -
  let ?e = "\<lparr>date_now = 1700000000000, fetch_json = (\<lambda>url. None), math_random = (\<lambda>n. 1 / 4)\<rparr>"
  let ?req = "\<lparr>route = Word, cf_connecting_ip = Some ''203.0.113.7'',
                query = [(''number'', ''250'')]\<rparr>"
  let ?resp = "jsonResponse (Json_array [''demo'', ''example'', ''test'', ''world'', ''hello'']) 200"
  have h: "parseInt (or_default (param ?req ''number'') ''1'') = Num 250"
    by (simp add: eval_defs)
  have "fst (word_handler ?e ?req initial_state) = Inr ?resp"
    by (simp add: eval_defs)
  then have run: "word_handler ?e ?req initial_state
                    = (Inr ?resp, snd (word_handler ?e ?req initial_state))"
    by (metis prod.collapse)
  from word_count_clamped [OF h, of ?e initial_state]
  obtain m where eff: "effective_number ?req = Num m" and m: "m = 100"
    and out: "\<forall>resp s1. word_handler ?e ?req initial_state = (Inr resp, s1) \<and> status resp = 200
                \<longrightarrow> (\<exists>ws. body resp = Json_array ws \<and> int (length ws) \<le> m)"
    by auto
  from out run have "\<exists>ws. body ?resp = Json_array ws \<and> int (length ws) \<le> m"
    by (metis status_jsonResponse)
  then obtain ws where "?resp = jsonResponse (Json_array ws) 200" and "int (length ws) \<le> m"
    by auto
  with eff m \<open>fst (word_handler ?e ?req initial_state) = Inr ?resp\<close> show ?thesis
    by (metis (no_types, lifting))
qed

lemma set_slice0: "set (slice0 n xs) \<subseteq> set xs"
  by (cases n) (auto dest: in_set_takeD)

text \<open>
  Claim C7. For a \<open>/word\<close> request whose \<open>length\<close> parameter parses as an integer \<open>L\<close> of at
  least 1 and whose language is a key of the store, with word list \<open>ws\<close> once the data is
  loaded: every word of a response with status 200 has exactly \<open>L\<close> code units; and when no
  word of \<open>ws\<close> has length \<open>L\<close>, the response is a 403 whose message is not the
  unknown-language message (it is the no-words message whenever the rate limiter admits the
  request, and the rate-limit message otherwise).
\<close>

theorem length_filter_exact:
  assumes "parseInt (or_default (param req ''length'') ''-1'') = Num L" and "1 \<le> L"
    and "store_words (ensure_loaded e s) (or_default (param req ''lang'') ''en'') = Some ws"
  shows "(\<forall>resp s1. word_handler e req s = (Inr resp, s1) \<and> status resp = 200 \<longrightarrow>
            (\<exists>out. body resp = Json_array out \<and> (\<forall>w \<in> set out. int (length w) = L)))
       \<and> ((\<forall>w \<in> set ws. int (length w) \<noteq> L) \<longrightarrow>
            (\<exists>msg. fst (word_handler e req s) = Inr (errorResponse msg 403)
                 \<and> msg \<noteq> ''No translation for this language'')
          \<and> (fst (checkRateLimit (date_now e) (client_ip req) (rateLimits s)) \<longrightarrow>
               fst (word_handler e req s)
                 = Inr (errorResponse ''No words found with the specified length'' 403)))"
proof -
  let ?s0 = "ensure_loaded e s"
  let ?lang = "or_default (param req ''lang'') ''en''"
  let ?len = "parseInt (or_default (param req ''length'') ''-1'')"
  let ?F = "\<lambda>a. filter (\<lambda>word. Num (int (length word)) = ?len) (heap ?s0 ! a)"
  from assms(3) obtain a where a: "map_of (languageData ?s0) ?lang = Some a"
    and ws: "ws = heap ?s0 ! a"
    by (auto simp: store_words_def)
  have own: "get_prop (languageData ?s0) ?lang = Own a"
    by (simp add: get_prop_def a)
  have gt: "js_gt ?len (Num 0)" using assms(1,2) by simp
  have F: "set (?F a) = {w \<in> set ws. int (length w) = L}"
    by (auto simp: assms(1) ws)
  have part1: "\<exists>out. body resp = Json_array out \<and> (\<forall>w \<in> set out. int (length w) = L)"
    if "word_handler e req s = (Inr resp, s1)" and "status resp = 200" for resp s1
  proof -
    from word_handler_result [OF that(1)] that(2) own gt
    obtain pool where resp: "resp = jsonResponse (Json_array (slice0 (effective_number req) pool)) 200"
      and pool: "set pool \<subseteq> set (?F a)"
      by auto
    have "set (slice0 (effective_number req) pool) \<subseteq> set (?F a)"
      using pool set_slice0 [of "effective_number req" pool] by blast
    with F have "\<forall>w \<in> set (slice0 (effective_number req) pool). int (length w) = L" by blast
    with resp show ?thesis by simp
  qed
  have part2: "(\<exists>msg. fst (word_handler e req s) = Inr (errorResponse msg 403)
                 \<and> msg \<noteq> ''No translation for this language'')
          \<and> (fst (checkRateLimit (date_now e) (client_ip req) (rateLimits s)) \<longrightarrow>
               fst (word_handler e req s)
                 = Inr (errorResponse ''No words found with the specified length'' 403))"
    if none: "\<forall>w \<in> set ws. int (length w) \<noteq> L"
  proof -
    from none have empty: "?F a = []"
      by (simp add: assms(1) ws filter_empty_conv)
    have "word_handler e req s = (fst (word_handler e req s), snd (word_handler e req s))"
      by simp
    from word_handler_result [OF this] own gt empty show ?thesis by auto
  qed
  from part1 part2 show ?thesis by blast
qed

theorem length_filter_exact_witness:
  "fst (word_handler
        \<lparr>date_now = 1700000000000, fetch_json = (\<lambda>url. None), math_random = (\<lambda>n. 1 / 4)\<rparr>
        \<lparr>route = Word, cf_connecting_ip = Some ''203.0.113.7'', query = [(''length'', ''9'')]\<rparr>
        initial_state) = Inr (errorResponse ''No words found with the specified length'' 403)"
proof -
  let ?e = "\<lparr>date_now = 1700000000000, fetch_json = (\<lambda>url. None), math_random = (\<lambda>n. 1 / 4)\<rparr>"
  let ?req = "\<lparr>route = Word, cf_connecting_ip = Some ''203.0.113.7'',
                query = [(''length'', ''9'')]\<rparr>"
  have h1: "parseInt (or_default (param ?req ''length'') ''-1'') = Num 9"
    by (simp add: eval_defs)
  have h2: "(1 :: int) \<le> 9" by simp
  have h3: "store_words (ensure_loaded ?e initial_state) (or_default (param ?req ''lang'') ''en'')
              = Some fallback_words"
    by (simp add: eval_defs)
  have none: "\<forall>w \<in> set fallback_words. int (length w) \<noteq> 9"
    by (simp add: fallback_words_def)
  have admitted: "fst (checkRateLimit (date_now ?e) (client_ip ?req) (rateLimits initial_state))"
    by (simp add: eval_defs)
  from length_filter_exact [OF h1 h2 h3] none admitted show ?thesis by blast
qed

text \<open>
  Claim C1 says that a \<open>/word\<close> request that returns 200 leaves every stored word list with
  the same words in the same order. The code does not do this when no length filter
  applies: \<open>words\<close> is then the stored array itself and \<open>sort\<close> reorders it in place. On the
  initial store, with the remote source unreachable (so that the Loader leaves the store as
  it is) and \<open>Math.random()\<close> returning 0.25, a \<open>/word\<close> request without parameters
  returns 200 and leaves the list of \<open>en\<close> reversed.
\<close>

theorem word_request_reorders_store:
  "store_words
     (ensure_loaded
        \<lparr>date_now = 1700000000000, fetch_json = (\<lambda>url. None), math_random = (\<lambda>n. 1 / 4)\<rparr>
        initial_state) ''en'' = Some [''hello'', ''world'', ''test'', ''example'', ''demo'']
   \<and> fst (handle
        \<lparr>date_now = 1700000000000, fetch_json = (\<lambda>url. None), math_random = (\<lambda>n. 1 / 4)\<rparr>
        \<lparr>route = Word, cf_connecting_ip = Some ''203.0.113.7'', query = []\<rparr>
        initial_state) = Inr (jsonResponse (Json_array [''demo'']) 200)
   \<and> store_words (snd (handle
        \<lparr>date_now = 1700000000000, fetch_json = (\<lambda>url. None), math_random = (\<lambda>n. 1 / 4)\<rparr>
        \<lparr>route = Word, cf_connecting_ip = Some ''203.0.113.7'', query = []\<rparr>
        initial_state)) ''en'' = Some [''demo'', ''example'', ''test'', ''world'', ''hello'']"
  by (simp add: eval_defs)

text \<open>
  Claim C8 says that a request to \<open>/all\<close> or \<open>/word\<close> whose \<open>lang\<close> is not a key of the
  store gets the 403 unknown-language error. The code does not do this for a name that
  \<open>languageData\<close> inherits from \<open>Object.prototype\<close>: \<open>constructor\<close> is not a key of the
  store, yet \<open>/all?lang=constructor\<close> is answered with status 200 and
  \<open>/word?lang=constructor\<close> throws instead of returning a response.
\<close>

theorem inherited_name_passes_language_check:
  "map_of (languageData
       (ensure_loaded
          \<lparr>date_now = 1700000000000, fetch_json = (\<lambda>url. None), math_random = (\<lambda>n. 1 / 4)\<rparr>
          initial_state)) ''constructor'' = None
   \<and> fst (handle
        \<lparr>date_now = 1700000000000, fetch_json = (\<lambda>url. None), math_random = (\<lambda>n. 1 / 4)\<rparr>
        \<lparr>route = All, cf_connecting_ip = Some ''203.0.113.7'', query = [(''lang'', ''constructor'')]\<rparr>
        initial_state) = Inr (jsonResponse (Json_inherited ''constructor'') 200)
   \<and> fst (handle
        \<lparr>date_now = 1700000000000, fetch_json = (\<lambda>url. None), math_random = (\<lambda>n. 1 / 4)\<rparr>
        \<lparr>route = Word, cf_connecting_ip = Some ''203.0.113.7'', query = [(''lang'', ''constructor'')]\<rparr>
        initial_state) = Inl TypeError"
  by (simp add: eval_defs)

section \<open>Properties of the process as a whole\<close>

lemma handler_fields_word:
  assumes "word_handler e req s = (r, s1)"
  shows "languageData s1 = languageData (ensure_loaded e s)"
    and "availableLanguages s1 = availableLanguages (ensure_loaded e s)"
    and "dataLoaded s1"
    and "fetched s1 = fetched (ensure_loaded e s)"
    and "rateLimits s1 = snd (checkRateLimit (date_now e) (client_ip req) (rateLimits s))"
    and "length (heap (ensure_loaded e s)) \<le> length (heap s1)"
proof -
  obtain admitted rl where chk:
    "checkRateLimit (date_now e) (client_ip req) (rateLimits s) = (admitted, rl)"
    by (cases "checkRateLimit (date_now e) (client_ip req) (rateLimits s)")
  let ?s2 = "(ensure_loaded e s)\<lparr>rateLimits := rl\<rparr>"
  have "languageData s1 = languageData ?s2 \<and> availableLanguages s1 = availableLanguages ?s2
      \<and> dataLoaded s1 = dataLoaded ?s2 \<and> fetched s1 = fetched ?s2
      \<and> rateLimits s1 = rateLimits ?s2 \<and> length (heap ?s2) \<le> length (heap s1)"
  proof (cases "admitted \<and> (\<exists>a. get_prop (languageData ?s2)
                    (or_default (param req ''lang'') ''en'') = Own a)")
    case True
    then obtain a where "get_prop (languageData ?s2) (or_default (param req ''lang'') ''en'') = Own a"
      by blast
    with True assms chk
    have "select_words e (effective_number req) (parseInt (or_default (param req ''length'') ''-1''))
            (parseInt (or_default (param req ''diff'') ''-1'')) a ?s2 = (r, s1)"
      by (simp add: word_handler_def Let_def ensure_loaded_fields)
    from select_words_frame [OF this] show ?thesis by simp
  next
    case False
    with assms chk have "s1 = ?s2"
      by (cases admitted;
          cases "get_prop (languageData ?s2) (or_default (param req ''lang'') ''en'')")
         (auto simp: word_handler_def Let_def ensure_loaded_fields)
    then show ?thesis by simp
  qed
  with chk show "languageData s1 = languageData (ensure_loaded e s)"
    and "availableLanguages s1 = availableLanguages (ensure_loaded e s)"
    and "dataLoaded s1"
    and "fetched s1 = fetched (ensure_loaded e s)"
    and "rateLimits s1 = snd (checkRateLimit (date_now e) (client_ip req) (rateLimits s))"
    and "length (heap (ensure_loaded e s)) \<le> length (heap s1)"
    by (simp_all add: ensure_loaded_fields)
qed

lemma all_handler_state:
  "snd (all_handler e req s) =
     (ensure_loaded e s)\<lparr>rateLimits := snd (checkRateLimit (date_now e) (client_ip req) (rateLimits s))\<rparr>"
  by (simp add: all_handler_def Let_def ensure_loaded_fields split: prod.splits property.splits)

lemma languages_handler_state: "snd (languages_handler e req s) = ensure_loaded e s"
  by (simp add: languages_handler_def Let_def)

text \<open>What a request leaves of the state, whatever the route.\<close>

lemma handle_fields:
  "languageData (snd (handle e req s)) = languageData (after_guard e req s)"
  "availableLanguages (snd (handle e req s)) = availableLanguages (after_guard e req s)"
  "dataLoaded (snd (handle e req s)) = dataLoaded (after_guard e req s)"
  "fetched (snd (handle e req s)) = fetched (after_guard e req s)"
  "length (heap (after_guard e req s)) \<le> length (heap (snd (handle e req s)))"
proof -
  have "languageData (snd (handle e req s)) = languageData (after_guard e req s)
      \<and> availableLanguages (snd (handle e req s)) = availableLanguages (after_guard e req s)
      \<and> dataLoaded (snd (handle e req s)) = dataLoaded (after_guard e req s)
      \<and> fetched (snd (handle e req s)) = fetched (after_guard e req s)
      \<and> length (heap (after_guard e req s)) \<le> length (heap (snd (handle e req s)))"
  proof (cases "route req")
    case Word
    have "word_handler e req s = (fst (word_handler e req s), snd (word_handler e req s))"
      by simp
    from handler_fields_word [OF this] Word show ?thesis
      by (simp add: handle_def after_guard_def ensure_loaded_fields)
  next
    case All
    then show ?thesis by (simp add: handle_def after_guard_def all_handler_state)
  next
    case Languages
    then show ?thesis by (simp add: handle_def after_guard_def languages_handler_state)
  qed (simp_all add: handle_def after_guard_def)
  then show "languageData (snd (handle e req s)) = languageData (after_guard e req s)"
    and "availableLanguages (snd (handle e req s)) = availableLanguages (after_guard e req s)"
    and "dataLoaded (snd (handle e req s)) = dataLoaded (after_guard e req s)"
    and "fetched (snd (handle e req s)) = fetched (after_guard e req s)"
    and "length (heap (after_guard e req s)) \<le> length (heap (snd (handle e req s)))"
    by simp_all
qed

lemma after_guard_idle: "dataLoaded s \<Longrightarrow> after_guard e req s = s"
  by (simp add: after_guard_def ensure_loaded_idle)

lemma handle_loaded:
  assumes "dataLoaded s"
  shows "dataLoaded (snd (handle e req s))" and "fetched (snd (handle e req s)) = fetched s"
  using assms by (simp_all add: handle_fields after_guard_idle)

lemma keys_set_language:
  "fst ` set (languageData (set_language lang ws s)) = insert lang (fst ` set (languageData s))"
  by (simp add: set_language_fields AList.dom_update)

lemma keys_load_language:
  "fst ` set (languageData s) \<subseteq> fst ` set (languageData (load_language e lang s))"
  by (auto simp: load_language_def fetch_words_def keys_set_language split: option.splits)

lemma keys_fold_load:
  "fst ` set (languageData s) \<subseteq> fst ` set (languageData (fold (load_language e) ls s))"
proof (induction ls arbitrary: s)
  case Nil
  show ?case by simp
next
  case (Cons l ls)
  from keys_load_language [of s e l] Cons.IH [of "load_language e l s"]
  show ?case by auto
qed

lemma en_present_loadWordData:
  assumes "en_present s"
  shows "en_present (loadWordData e s)"
proof (cases "fetch_json e primary_url")
  case None
  with assms show ?thesis
    by (simp add: loadWordData_primary_failure en_present_def)
next
  case (Some ws)
  let ?s2 = "set_language ''en'' ws (s\<lparr>fetched := fetched s @ [primary_url]\<rparr>)"
  let ?s3 = "fold (load_language e) languages ?s2"
  have "''en'' \<in> fst ` set (languageData ?s2)" by (simp add: keys_set_language)
  with keys_fold_load [of ?s2 e languages] have "''en'' \<in> fst ` set (languageData ?s3)"
    by blast
  moreover have "loadWordData e s = ?s3\<lparr>availableLanguages := map fst (languageData ?s3)\<rparr>"
    using Some by (simp add: loadWordData_def fetch_words_def Let_def)
  ultimately show ?thesis by (simp add: en_present_def)
qed

lemma en_present_after_guard: "en_present s \<Longrightarrow> en_present (after_guard e req s)"
  using en_present_loadWordData [of s e]
  by (simp add: after_guard_def ensure_loaded_def en_present_def)

lemma en_present_handle: "en_present s \<Longrightarrow> en_present (snd (handle e req s))"
  using en_present_after_guard [of s e req] by (simp add: en_present_def handle_fields)

lemma reachable_en_present: "reachable s \<Longrightarrow> en_present s"
proof (induction rule: reachable.induct)
  case reachable_initial
  show ?case by (simp add: en_present_def initial_state_def)
next
  case (reachable_handle s e req)
  then show ?case by (simp add: en_present_handle)
qed

text \<open>
  Claim C9. In every state the process can reach, the store has an entry for \<open>en\<close>, and
  the response to any \<open>/languages\<close> request made in that state is a 200 whose array
  contains \<open>en\<close>.
\<close>

theorem en_always_available:
  assumes "reachable s"
  shows "(\<exists>ws. store_words s ''en'' = Some ws)
       \<and> (\<forall>e req. route req = Languages \<longrightarrow>
            (\<exists>langs. fst (handle e req s) = Inr (jsonResponse (Json_array langs) 200)
                   \<and> ''en'' \<in> set langs))"
proof (intro conjI allI impI)
  from assms have "en_present s" by (rule reachable_en_present)
  then have "''en'' \<in> fst ` set (languageData s)" by (simp add: en_present_def)
  then have "map_of (languageData s) ''en'' \<noteq> None" by (simp add: map_of_eq_None_iff)
  then show "\<exists>ws. store_words s ''en'' = Some ws" by (auto simp: store_words_def)
next
  fix e and req :: request assume r: "route req = Languages"
  from assms have "en_present s" by (rule reachable_en_present)
  then have "en_present (after_guard e req s)" by (rule en_present_after_guard)
  with r have "''en'' \<in> set (availableLanguages (ensure_loaded e s))"
    by (simp add: en_present_def after_guard_def)
  with r show "\<exists>langs. fst (handle e req s) = Inr (jsonResponse (Json_array langs) 200)
                   \<and> ''en'' \<in> set langs"
    by (intro exI [of _ "availableLanguages (ensure_loaded e s)"])
       (simp add: handle_def languages_handler_def Let_def)
qed

theorem en_always_available_witness:
  "(\<exists>ws. store_words (snd (handle
        \<lparr>date_now = 1700000000000, fetch_json = (\<lambda>url. Some [''word'']),
         math_random = (\<lambda>n. 1 / 4)\<rparr>
        \<lparr>route = Word, cf_connecting_ip = None, query = []\<rparr> initial_state)) ''en'' = Some ws)
   \<and> (\<exists>langs. fst (handle
        \<lparr>date_now = 1700000009000, fetch_json = (\<lambda>url. None), math_random = (\<lambda>n. 1 / 4)\<rparr>
        \<lparr>route = Languages, cf_connecting_ip = None, query = []\<rparr>
        (snd (handle
          \<lparr>date_now = 1700000000000, fetch_json = (\<lambda>url. Some [''word'']),
           math_random = (\<lambda>n. 1 / 4)\<rparr>
          \<lparr>route = Word, cf_connecting_ip = None, query = []\<rparr> initial_state)))
        = Inr (jsonResponse (Json_array langs) 200) \<and> ''en'' \<in> set langs)"
proof -
  let ?s = "snd (handle
        \<lparr>date_now = 1700000000000, fetch_json = (\<lambda>url. Some [''word'']),
         math_random = (\<lambda>n. 1 / 4)\<rparr>
        \<lparr>route = Word, cf_connecting_ip = None, query = []\<rparr> initial_state)"
  let ?req = "\<lparr>route = Languages, cf_connecting_ip = None, query = []\<rparr>"
  have h: "reachable ?s" by (rule reachable_handle [OF reachable_initial])
  have r: "route ?req = Languages" by simp
  from en_always_available [OF h] r show ?thesis by blast
qed

lemma wf_state_loadWordData: "wf_state s \<Longrightarrow> wf_state (loadWordData e s)"
proof -
  assume wf: "wf_state s"
  have "wf_state (fold (load_language e) languages
          (set_language ''en'' ws (s\<lparr>fetched := fetched s @ [primary_url]\<rparr>)))" for ws
    using wf by (simp add: wf_state_fold_load wf_state_set_language)
  then have "wf_state (loadWordData e s)" if "fetch_json e primary_url = Some ws" for ws
    using that by (simp add: loadWordData_def fetch_words_def Let_def wf_state_def)
  with wf show ?thesis
    by (cases "fetch_json e primary_url") (simp_all add: loadWordData_primary_failure)
qed

lemma wf_state_handle:
  assumes "wf_state s"
  shows "wf_state (snd (handle e req s))"
proof -
  have "wf_state (ensure_loaded e s)"
    using assms wf_state_loadWordData [of s e] by (simp add: ensure_loaded_def wf_state_def)
  with assms have "wf_state (after_guard e req s)" by (simp add: after_guard_def)
  then have keys: "distinct (map fst (languageData (after_guard e req s)))"
    and refs: "\<forall>a \<in> snd ` set (languageData (after_guard e req s)).
                 a < length (heap (after_guard e req s))"
    by (simp_all add: wf_state_def)
  have "a < length (heap (snd (handle e req s)))"
    if "a \<in> snd ` set (languageData (after_guard e req s))" for a
    using that refs handle_fields(5) [of e req s] by fastforce
  with keys show ?thesis
    by (simp add: wf_state_def handle_fields(1))
qed

lemma reachable_wf_state: "reachable s \<Longrightarrow> wf_state s"
  by (induction rule: reachable.induct) (simp_all add: wf_state_initial wf_state_handle)

text \<open>What the \<open>/all\<close> handler returns, case by case.\<close>

lemma all_handler_result:
  "(\<not> fst (checkRateLimit (date_now e) (client_ip req) (rateLimits s))
      \<and> fst (all_handler e req s)
           = Inr (errorResponse ''You hit the rate limit, try again in a few seconds'' 403))
   \<or> (fst (checkRateLimit (date_now e) (client_ip req) (rateLimits s))
      \<and> (case get_prop (languageData (ensure_loaded e s)) (or_default (param req ''lang'') ''en'') of
            Undefined \<Rightarrow> fst (all_handler e req s)
                           = Inr (errorResponse ''No translation for this language'' 403)
          | Inherited \<Rightarrow> fst (all_handler e req s)
                           = Inr (jsonResponse (Json_inherited (or_default (param req ''lang'') ''en'')) 200)
          | Own a \<Rightarrow> fst (all_handler e req s)
                           = Inr (jsonResponse (Json_array (heap (ensure_loaded e s) ! a)) 200)))"
  by (simp add: all_handler_def Let_def ensure_loaded_fields split: prod.splits property.splits)

lemma rate_limited_again:
  assumes "fst (checkRateLimit t0 ip rl)" and "t0 \<noteq> 0" and "t1 - t0 \<le> 5000"
  shows "\<not> fst (checkRateLimit t1 ip (snd (checkRateLimit t0 ip rl)))"
proof -
  have "map_of (snd (checkRateLimit t0 ip rl)) ip = Some t0"
    by (simp add: checkRateLimit_admit_map [OF assms(1)])
  with assms(2,3) show ?thesis
    by (simp add: checkRateLimit_admit_iff get_prop_def RATE_LIMIT_WINDOW_def)
qed

lemma handle_rate_limited:
  assumes "route req \<in> {All, Word}"
    and "\<not> fst (checkRateLimit (date_now e) (client_ip req) (rateLimits s))"
  shows "fst (handle e req s)
           = Inr (errorResponse ''You hit the rate limit, try again in a few seconds'' 403)"
proof (cases "route req = All")
  case True
  with assms(2) all_handler_result [of e req s] show ?thesis by (simp add: handle_def)
next
  case False
  with assms(1) have w: "route req = Word" by simp
  have "word_handler e req s = (fst (word_handler e req s), snd (word_handler e req s))" by simp
  from word_handler_result [OF this] assms(2) w show ?thesis by (simp add: handle_def)
qed

lemma handle_rateLimits:
  assumes "route req \<in> {All, Word}"
  shows "rateLimits (snd (handle e req s))
           = snd (checkRateLimit (date_now e) (client_ip req) (rateLimits s))"
proof (cases "route req = All")
  case True
  then show ?thesis by (simp add: handle_def all_handler_state)
next
  case False
  with assms have w: "route req = Word" by simp
  have "word_handler e req s = (fst (word_handler e req s), snd (word_handler e req s))" by simp
  from handler_fields_word(5) [OF this] w show ?thesis by (simp add: handle_def)
qed

text \<open>
  Claim C10. When a request to \<open>/all\<close> or \<open>/word\<close> ends in the 403 unknown-language error
  or in the 403 no-words-of-that-length error, the rate-limit table holds the time of that
  request for the client afterwards, and the next request of the same client to \<open>/all\<close>
  or \<open>/word\<close>, made no more than 5000 ms later, gets the 403 rate-limit error. (The clock
  does not read 0.)
\<close>

theorem failed_request_counts_against_rate_limit:
  assumes "route r1 \<in> {All, Word}" and "route r2 \<in> {All, Word}"
    and "fst (handle e1 r1 s) = Inr (errorResponse msg 403)"
    and "msg = ''No translation for this language''
          \<or> msg = ''No words found with the specified length''"
    and "date_now e1 \<noteq> 0"
    and "client_ip r2 = client_ip r1"
    and "date_now e2 - date_now e1 \<le> 5000"
  shows "map_of (rateLimits (snd (handle e1 r1 s))) (client_ip r1) = Some (date_now e1)
       \<and> fst (handle e2 r2 (snd (handle e1 r1 s)))
           = Inr (errorResponse ''You hit the rate limit, try again in a few seconds'' 403)"
proof -
  let ?rl = "rateLimits s"
  let ?s1 = "snd (handle e1 r1 s)"
  have admitted: "fst (checkRateLimit (date_now e1) (client_ip r1) ?rl)"
  proof (rule ccontr)
    assume "\<not> fst (checkRateLimit (date_now e1) (client_ip r1) ?rl)"
    with assms(1) have "fst (handle e1 r1 s)
        = Inr (errorResponse ''You hit the rate limit, try again in a few seconds'' 403)"
      by (rule handle_rate_limited)
    with assms(3,4) show False by auto
  qed
  have table: "rateLimits ?s1 = snd (checkRateLimit (date_now e1) (client_ip r1) ?rl)"
    using assms(1) by (rule handle_rateLimits)
  have entry: "map_of (rateLimits ?s1) (client_ip r1) = Some (date_now e1)"
    by (simp add: table checkRateLimit_admit_map [OF admitted])
  have "\<not> fst (checkRateLimit (date_now e2) (client_ip r2) (rateLimits ?s1))"
    using rate_limited_again [OF admitted assms(5,7)] by (simp add: table assms(6))
  with assms(2) have "fst (handle e2 r2 ?s1)
      = Inr (errorResponse ''You hit the rate limit, try again in a few seconds'' 403)"
    by (rule handle_rate_limited)
  with entry show ?thesis by simp
qed

theorem failed_request_counts_against_rate_limit_witness:
  "fst (handle
     \<lparr>date_now = 1700000003000, fetch_json = (\<lambda>url. None), math_random = (\<lambda>n. 1 / 4)\<rparr>
     \<lparr>route = Word, cf_connecting_ip = Some ''203.0.113.7'', query = []\<rparr>
     (snd (handle
        \<lparr>date_now = 1700000000000, fetch_json = (\<lambda>url. None), math_random = (\<lambda>n. 1 / 4)\<rparr>
        \<lparr>route = All, cf_connecting_ip = Some ''203.0.113.7'', query = [(''lang'', ''xx'')]\<rparr>
        initial_state)))
   = Inr (errorResponse ''You hit the rate limit, try again in a few seconds'' 403)"
proof -
  let ?e1 = "\<lparr>date_now = 1700000000000, fetch_json = (\<lambda>url. None), math_random = (\<lambda>n. 1 / 4)\<rparr>"
  let ?r1 = "\<lparr>route = All, cf_connecting_ip = Some ''203.0.113.7'', query = [(''lang'', ''xx'')]\<rparr>"
  let ?e2 = "\<lparr>date_now = 1700000003000, fetch_json = (\<lambda>url. None), math_random = (\<lambda>n. 1 / 4)\<rparr>"
  let ?r2 = "\<lparr>route = Word, cf_connecting_ip = Some ''203.0.113.7'', query = []\<rparr>"
  have h1: "route ?r1 \<in> {All, Word}" and h2: "route ?r2 \<in> {All, Word}" by simp_all
  have h3: "fst (handle ?e1 ?r1 initial_state)
              = Inr (errorResponse ''No translation for this language'' 403)"
    by (simp add: eval_defs)
  have h4: "''No translation for this language'' = ''No translation for this language''
          \<or> ''No translation for this language'' = ''No words found with the specified length''"
    by simp
  have h5: "date_now ?e1 \<noteq> 0" by simp
  have h6: "client_ip ?r2 = client_ip ?r1" by (simp add: client_ip_def)
  have h7: "date_now ?e2 - date_now ?e1 \<le> 5000" by simp
  from failed_request_counts_against_rate_limit [OF h1 h2 h3 h4 h5 h6 h7]
  show ?thesis by (rule conjunct2)
qed

text \<open>In every state the process can reach, the rate-limit table has no key twice.\<close>

lemma reachable_rateLimits_distinct: "reachable s \<Longrightarrow> distinct (map fst (rateLimits s))"
proof (induction rule: reachable.induct)
  case reachable_initial
  show ?case by (simp add: initial_state_def)
next
  case (reachable_handle s e req)
  show ?case
  proof (cases "route req \<in> {All, Word}")
    case True
    with reachable_handle.IH show ?thesis
      by (simp add: handle_rateLimits checkRateLimit_distinct del: insert_iff)
  next
    case False
    then have "rateLimits (snd (handle e req s)) = rateLimits s"
      by (cases "route req")
         (simp_all add: handle_def languages_handler_state ensure_loaded_fields)
    with reachable_handle.IH show ?thesis by simp
  qed
qed

section \<open>What a word request leaves of the store\<close>

lemma mset_nth_list_update:
  "mset ws = mset (xs ! a) \<Longrightarrow> mset (xs[a := ws] ! b) = mset (xs ! b)"
  by (cases "a < length xs"; cases "a = b"; simp add: list_update_beyond)

text \<open>
  The selection leaves every array that existed before with the same elements, and, apart
  from the array it sorts in place, in the same order.
\<close>

lemma select_words_heap:
  assumes "select_words e number len diff a s = (r, s1)" and "b < length (heap s)"
  shows "mset (heap s1 ! b) = mset (heap s ! b)"
    and "js_gt len (Num 0) \<or> b \<noteq> a \<Longrightarrow> heap s1 ! b = heap s ! b"
proof -
  have "mset (heap s1 ! b) = mset (heap s ! b)
      \<and> (js_gt len (Num 0) \<or> b \<noteq> a \<longrightarrow> heap s1 ! b = heap s ! b)"
  proof (cases "js_gt len (Num 0)")
    case True
    with assms show ?thesis
      by (auto simp: select_words_def alloc_def Let_def sort_in_place_heap sort_in_place_fields
            nth_append nth_list_update split: if_splits prod.splits)
  next
    case False
    with assms show ?thesis
      by (auto simp: select_words_def alloc_def Let_def sort_in_place_heap sort_in_place_fields
            nth_append mset_sort_random mset_nth_list_update split: if_splits prod.splits)
  qed
  then show "mset (heap s1 ! b) = mset (heap s ! b)"
    and "js_gt len (Num 0) \<or> b \<noteq> a \<Longrightarrow> heap s1 ! b = heap s ! b"
    by simp_all
qed

lemma word_handler_heap:
  assumes "word_handler e req s = (r, s1)" and "b < length (heap (ensure_loaded e s))"
  shows "mset (heap s1 ! b) = mset (heap (ensure_loaded e s) ! b)"
    and "js_gt (parseInt (or_default (param req ''length'') ''-1'')) (Num 0)
           \<Longrightarrow> heap s1 ! b = heap (ensure_loaded e s) ! b"
proof -
  obtain admitted rl where chk:
    "checkRateLimit (date_now e) (client_ip req) (rateLimits s) = (admitted, rl)"
    by (cases "checkRateLimit (date_now e) (client_ip req) (rateLimits s)")
  let ?s2 = "(ensure_loaded e s)\<lparr>rateLimits := rl\<rparr>"
  let ?len = "parseInt (or_default (param req ''length'') ''-1'')"
  have "mset (heap s1 ! b) = mset (heap ?s2 ! b)
      \<and> (js_gt ?len (Num 0) \<longrightarrow> heap s1 ! b = heap ?s2 ! b)"
  proof (cases "admitted \<and> (\<exists>a. get_prop (languageData ?s2)
                    (or_default (param req ''lang'') ''en'') = Own a)")
    case True
    then obtain a where "get_prop (languageData ?s2) (or_default (param req ''lang'') ''en'') = Own a"
      by blast
    with True assms(1) chk
    have sel: "select_words e (effective_number req) ?len
            (parseInt (or_default (param req ''diff'') ''-1'')) a ?s2 = (r, s1)"
      by (simp add: word_handler_def Let_def ensure_loaded_fields)
    from assms(2) have b: "b < length (heap ?s2)" by simp
    from select_words_heap [OF sel b] show ?thesis by blast
  next
    case False
    with assms(1) chk have "s1 = ?s2"
      by (cases admitted;
          cases "get_prop (languageData ?s2) (or_default (param req ''lang'') ''en'')")
         (auto simp: word_handler_def Let_def ensure_loaded_fields)
    then show ?thesis by simp
  qed
  then show "mset (heap s1 ! b) = mset (heap (ensure_loaded e s) ! b)"
    and "js_gt ?len (Num 0) \<Longrightarrow> heap s1 ! b = heap (ensure_loaded e s) ! b"
    by simp_all
qed

text \<open>
  What does hold of the store across a \<open>/word\<close> request, once the data is loaded: every
  language keeps its words, as a multiset; and when the length filter applies, every
  stored list is left exactly as it was.
\<close>

lemma word_request_keeps_words:
  assumes "wf_state s" and "word_handler e req s = (r, s1)"
  shows "map_option mset (store_words s1 k) = map_option mset (store_words (ensure_loaded e s) k)"
    and "js_gt (parseInt (or_default (param req ''length'') ''-1'')) (Num 0)
           \<Longrightarrow> store_words s1 k = store_words (ensure_loaded e s) k"
proof -
  let ?s0 = "ensure_loaded e s"
  have wf: "wf_state ?s0"
    using assms(1) wf_state_loadWordData [of s e] by (simp add: ensure_loaded_def wf_state_def)
  have keys: "languageData s1 = languageData ?s0"
    using assms(2) by (rule handler_fields_word(1))
  show "map_option mset (store_words s1 k) = map_option mset (store_words ?s0 k)"
  proof (cases "map_of (languageData ?s0) k")
    case None
    then show ?thesis by (simp add: store_words_def keys)
  next
    case (Some b)
    then have "b \<in> snd ` set (languageData ?s0)" by (force dest: map_of_SomeD)
    with wf have "b < length (heap ?s0)" by (auto simp: wf_state_def)
    from word_handler_heap(1) [OF assms(2) this] Some show ?thesis
      by (simp add: store_words_def keys)
  qed
  show "store_words s1 k = store_words ?s0 k"
    if "js_gt (parseInt (or_default (param req ''length'') ''-1'')) (Num 0)"
  proof (cases "map_of (languageData ?s0) k")
    case None
    then show ?thesis by (simp add: store_words_def keys)
  next
    case (Some b)
    then have "b \<in> snd ` set (languageData ?s0)" by (force dest: map_of_SomeD)
    with wf have "b < length (heap ?s0)" by (auto simp: wf_state_def)
    from word_handler_heap(2) [OF assms(2) this that] Some show ?thesis
      by (simp add: store_words_def keys)
  qed
qed

text \<open>
  A language that is neither a key of the store nor the name of a member of
  \<open>Object.prototype\<close> is rejected by both handlers, once the rate limiter has admitted the
  request.
\<close>

lemma unknown_language_rejected:
  assumes "route req \<in> {All, Word}"
    and "fst (checkRateLimit (date_now e) (client_ip req) (rateLimits s))"
    and "map_of (languageData (ensure_loaded e s)) (or_default (param req ''lang'') ''en'') = None"
    and "or_default (param req ''lang'') ''en'' \<notin> set object_prototype_names"
  shows "fst (handle e req s) = Inr (errorResponse ''No translation for this language'' 403)"
proof -
  have undef: "get_prop (languageData (ensure_loaded e s)) (or_default (param req ''lang'') ''en'')
                 = Undefined"
    using assms(3,4) by (simp add: get_prop_def)
  show ?thesis
  proof (cases "route req = All")
    case True
    with assms(2) undef all_handler_result [of e req s] show ?thesis by (simp add: handle_def)
  next
    case False
    with assms(1) have w: "route req = Word" by simp
    have "word_handler e req s = (fst (word_handler e req s), snd (word_handler e req s))"
      by simp
    from word_handler_result [OF this] assms(2) undef w show ?thesis by (simp add: handle_def)
  qed
qed

section \<open>Properties of requests in flight together\<close>

lemma issue_fields:
  "heap (issue url s) = heap s"
  "languageData (issue url s) = languageData s"
  "availableLanguages (issue url s) = availableLanguages s"
  "rateLimits (issue url s) = rateLimits s"
  "dataLoaded (issue url s) = dataLoaded s"
  "fetched (issue url s) = fetched s @ [url]"
  by (simp_all add: issue_def)

lemma settle_Done:
  "shared (settle i (Done out) w) = snd out"
  "pending (settle None (Done out) w) = pending w"
  "pending (settle (Some k) (Done out) w) = take k (pending w) @ drop (Suc k) (pending w)"
  "sent (settle i (Done out) w) = sent w @ [fst out]"
  by (cases out; simp add: settle_def)+

lemma settle_Suspended:
  "shared (settle i (Suspended t s) w) = s"
  "pending (settle None (Suspended t s) w) = pending w @ [t]"
  "pending (settle (Some k) (Suspended t s) w) = (pending w)[k := t]"
  "sent (settle i (Suspended t s) w) = sent w"
  by (simp_all add: settle_def)

lemma step_arrive_unloaded:
  assumes "route req \<in> {Languages, All, Word}" and "\<not> dataLoaded (shared w)"
  shows "step (Arrive e req) w
           = w\<lparr>shared := issue primary_url (shared w), pending := pending w @ [Primary req]\<rparr>"
  using assms by (simp add: arrive_def settle_def)

lemma step_resume_primary_failed:
  assumes "i < length (pending w)" and "pending w ! i = Primary req"
    and "fetch_json e primary_url = None"
  shows "step (Resume e i) w = w\<lparr>pending := (pending w)[i := Returning req]\<rparr>"
  using assms by (simp add: settle_def)

lemma step_resume_returning:
  assumes "i < length (pending w)" and "pending w ! i = Returning req"
  shows "shared (step (Resume e i) w) = snd (handle e req ((shared w)\<lparr>dataLoaded := True\<rparr>))"
    and "pending (step (Resume e i) w) = take i (pending w) @ drop (Suc i) (pending w)"
  using assms by (simp_all add: settle_Done)

lemma next_language_loaded:
  "next_language req ls s = Suspended t s1 \<Longrightarrow> dataLoaded s1 = dataLoaded s"
  by (cases ls) (auto simp: issue_def)

lemma next_language_suspends: "next_language req ls s \<noteq> Done out"
  by (cases ls) simp_all

lemma resume_loaded:
  assumes "dataLoaded s"
  shows "resume e t s = Suspended t1 s1 \<Longrightarrow> dataLoaded s1"
    and "resume e t s = Done (r, s1) \<Longrightarrow> dataLoaded s1"
proof -
  show "resume e t s = Suspended t1 s1 \<Longrightarrow> dataLoaded s1"
    using assms
    by (cases t)
       (auto simp: set_language_fields dest!: next_language_loaded split: option.splits)
  show "resume e t s = Done (r, s1) \<Longrightarrow> dataLoaded s1"
  proof (cases t)
    case (Returning req)
    assume "resume e t s = Done (r, s1)"
    with Returning have "s1 = snd (handle e req (s\<lparr>dataLoaded := True\<rparr>))" by simp
    then show ?thesis by (simp add: handle_loaded)
  qed (auto simp: next_language_suspends split: option.splits)
qed

lemma arrive_loaded:
  assumes "dataLoaded s"
  shows "arrive e req s = Done (handle e req s)"
  using assms by (simp add: arrive_def)

lemma step_loaded:
  assumes "dataLoaded (shared w)"
  shows "dataLoaded (shared (step ev w))"
proof (cases ev)
  case (Arrive e req)
  with assms show ?thesis
    by (simp add: arrive_loaded settle_Done handle_loaded)
next
  case (Resume e i)
  show ?thesis
  proof (cases "i < length (pending w)")
    case False
    with Resume assms show ?thesis by simp
  next
    case True
    show ?thesis
    proof (cases "resume e (pending w ! i) (shared w)")
      case (Suspended t s1)
      with resume_loaded(1) [OF assms this] Resume True show ?thesis
        by (simp add: settle_def)
    next
      case (Done out)
      obtain r s1 where out: "out = (r, s1)" by (cases out)
      with Done resume_loaded(2) [OF assms, of e "pending w ! i" r s1] Resume True
      show ?thesis by (simp add: settle_def)
    qed
  qed
qed

lemma steps_loaded: "dataLoaded (shared w) \<Longrightarrow> dataLoaded (shared (steps evs w))"
  by (induction evs arbitrary: w) (simp_all add: step_loaded)

lemma step_arrive_loaded:
  assumes "dataLoaded (shared w)"
  shows "pending (step (Arrive e req) w) = pending w"
    and "fetched (shared (step (Arrive e req) w)) = fetched (shared w)"
  using assms
  by (simp_all add: arrive_loaded settle_Done handle_loaded)

lemma step_idle:
  assumes "dataLoaded (shared w)" and "pending w = []"
  shows "pending (step ev w) = []" and "fetched (shared (step ev w)) = fetched (shared w)"
  using assms step_arrive_loaded [OF assms(1)]
  by (cases ev; simp)+

lemma steps_idle:
  "dataLoaded (shared w) \<Longrightarrow> pending w = [] \<Longrightarrow>
     pending (steps evs w) = [] \<and> fetched (shared (steps evs w)) = fetched (shared w)"
proof (induction evs arbitrary: w)
  case Nil
  then show ?case by simp
next
  case (Cons ev evs)
  from Cons.prems have "dataLoaded (shared (step ev w))" "pending (step ev w) = []"
    "fetched (shared (step ev w)) = fetched (shared w)"
    by (simp_all add: step_loaded step_idle del: step.simps)
  with Cons.IH [of "step ev w"] show ?case by simp
qed

text \<open>
  Claim C3, amended. A data-serving request that arrives while the flag is unset starts a
  load: it calls \<open>fetch\<close> for the primary URL and is suspended. When that fetch fails, the
  task goes on to the return into its handler and nothing else changes, so the store keeps
  its prior content. When the handler runs on, it sets the flag all the same, and it
  leaves the keys and references of the store, the list of available languages and the
  record of fetches as they were. Once the flag is set it stays set under every sequence
  of events, and a request that arrives then is answered at once: it adds no suspended
  task and issues no fetch; with no load still in flight, nothing is fetched ever again.
  (A request that arrives before the flag is set, while another load is in flight, starts
  a load of its own.)
\<close>

theorem load_is_not_repeated_once_flag_is_set:
  "(route req \<in> {Languages, All, Word} \<and> \<not> dataLoaded (shared w) \<longrightarrow>
      step (Arrive e req) w
        = w\<lparr>shared := issue primary_url (shared w), pending := pending w @ [Primary req]\<rparr>)
   \<and> (i < length (pending w) \<and> pending w ! i = Primary req \<and> fetch_json e primary_url = None \<longrightarrow>
      step (Resume e i) w = w\<lparr>pending := (pending w)[i := Returning req]\<rparr>)
   \<and> (i < length (pending w) \<and> pending w ! i = Returning req \<longrightarrow>
      dataLoaded (shared (step (Resume e i) w))
      \<and> languageData (shared (step (Resume e i) w)) = languageData (shared w)
      \<and> availableLanguages (shared (step (Resume e i) w)) = availableLanguages (shared w)
      \<and> fetched (shared (step (Resume e i) w)) = fetched (shared w))
   \<and> (dataLoaded (shared w) \<longrightarrow>
      (\<forall>evs. dataLoaded (shared (steps evs w)))
      \<and> pending (step (Arrive e req) w) = pending w
      \<and> fetched (shared (step (Arrive e req) w)) = fetched (shared w)
      \<and> (pending w = [] \<longrightarrow>
           (\<forall>evs. pending (steps evs w) = []
                \<and> fetched (shared (steps evs w)) = fetched (shared w))))"
proof (intro conjI impI allI)
  assume "route req \<in> {Languages, All, Word} \<and> \<not> dataLoaded (shared w)"
  then show "step (Arrive e req) w
        = w\<lparr>shared := issue primary_url (shared w), pending := pending w @ [Primary req]\<rparr>"
    by (simp add: step_arrive_unloaded del: step.simps)
next
  assume "i < length (pending w) \<and> pending w ! i = Primary req \<and> fetch_json e primary_url = None"
  then show "step (Resume e i) w = w\<lparr>pending := (pending w)[i := Returning req]\<rparr>"
    by (simp add: step_resume_primary_failed del: step.simps)
next
  assume a: "i < length (pending w) \<and> pending w ! i = Returning req"
  let ?s = "(shared w)\<lparr>dataLoaded := True\<rparr>"
  have flag: "dataLoaded ?s" by simp
  from a have sh: "shared (step (Resume e i) w) = snd (handle e req ?s)"
    by (simp add: step_resume_returning(1) del: step.simps)
  show "dataLoaded (shared (step (Resume e i) w))"
    unfolding sh using flag by (rule handle_loaded)
  show "languageData (shared (step (Resume e i) w)) = languageData (shared w)"
    unfolding sh by (simp add: handle_fields after_guard_idle)
  show "availableLanguages (shared (step (Resume e i) w)) = availableLanguages (shared w)"
    unfolding sh by (simp add: handle_fields after_guard_idle)
  show "fetched (shared (step (Resume e i) w)) = fetched (shared w)"
    unfolding sh by (simp add: handle_loaded)
next
  fix evs assume "dataLoaded (shared w)"
  then show "dataLoaded (shared (steps evs w))" by (rule steps_loaded)
next
  assume l: "dataLoaded (shared w)"
  show "pending (step (Arrive e req) w) = pending w"
    using l by (rule step_arrive_loaded)
  show "fetched (shared (step (Arrive e req) w)) = fetched (shared w)"
    using l by (rule step_arrive_loaded)
  fix evs assume "pending w = []"
  with l steps_idle [of w evs] show "pending (steps evs w) = []"
    and "fetched (shared (steps evs w)) = fetched (shared w)"
    by simp_all
qed

lemmas world_defs =
  initial_world_def settle_def arrive_def issue_def

theorem load_is_not_repeated_once_flag_is_set_witness:
  "dataLoaded (shared (steps
      [Arrive \<lparr>date_now = 1700000000000, fetch_json = (\<lambda>url. None), math_random = (\<lambda>n. 1 / 4)\<rparr>
         \<lparr>route = Languages, cf_connecting_ip = None, query = []\<rparr>,
       Resume \<lparr>date_now = 1700000000100, fetch_json = (\<lambda>url. None), math_random = (\<lambda>n. 1 / 4)\<rparr> 0,
       Resume \<lparr>date_now = 1700000000100, fetch_json = (\<lambda>url. None), math_random = (\<lambda>n. 1 / 4)\<rparr> 0]
      initial_world))
   \<and> store_words (shared (steps
      [Arrive \<lparr>date_now = 1700000000000, fetch_json = (\<lambda>url. None), math_random = (\<lambda>n. 1 / 4)\<rparr>
         \<lparr>route = Languages, cf_connecting_ip = None, query = []\<rparr>,
       Resume \<lparr>date_now = 1700000000100, fetch_json = (\<lambda>url. None), math_random = (\<lambda>n. 1 / 4)\<rparr> 0,
       Resume \<lparr>date_now = 1700000000100, fetch_json = (\<lambda>url. None), math_random = (\<lambda>n. 1 / 4)\<rparr> 0]
      initial_world)) ''en'' = Some fallback_words
   \<and> fetched (shared (steps
      [Arrive \<lparr>date_now = 1700000000000, fetch_json = (\<lambda>url. None), math_random = (\<lambda>n. 1 / 4)\<rparr>
         \<lparr>route = Languages, cf_connecting_ip = None, query = []\<rparr>,
       Resume \<lparr>date_now = 1700000000100, fetch_json = (\<lambda>url. None), math_random = (\<lambda>n. 1 / 4)\<rparr> 0,
       Resume \<lparr>date_now = 1700000000100, fetch_json = (\<lambda>url. None), math_random = (\<lambda>n. 1 / 4)\<rparr> 0,
       Arrive \<lparr>date_now = 1700000009000, fetch_json = (\<lambda>url. Some [''word'']),
                math_random = (\<lambda>n. 3 / 4)\<rparr>
         \<lparr>route = Word, cf_connecting_ip = None, query = []\<rparr>]
      initial_world)) = [primary_url]"
proof -
  let ?e0 = "\<lparr>date_now = 1700000000000, fetch_json = (\<lambda>url. None), math_random = (\<lambda>n. 1 / 4)\<rparr>"
  let ?e1 = "\<lparr>date_now = 1700000000100, fetch_json = (\<lambda>url. None), math_random = (\<lambda>n. 1 / 4)\<rparr>"
  let ?e2 = "\<lparr>date_now = 1700000009000, fetch_json = (\<lambda>url. Some [''word'']),
              math_random = (\<lambda>n. 3 / 4)\<rparr>"
  let ?req = "\<lparr>route = Languages, cf_connecting_ip = None, query = []\<rparr>"
  let ?later = "\<lparr>route = Word, cf_connecting_ip = None, query = []\<rparr>"
  let ?w1 = "step (Arrive ?e0 ?req) initial_world"
  let ?w2 = "step (Resume ?e1 0) ?w1"
  let ?w3 = "step (Resume ?e1 0) ?w2"
  have start: "route ?req \<in> {Languages, All, Word} \<and> \<not> dataLoaded (shared initial_world)"
    by (simp add: initial_world_def initial_state_def)
  from load_is_not_repeated_once_flag_is_set [where req = ?req and w = initial_world and e = ?e0] start
  have w1: "?w1 = initial_world\<lparr>shared := issue primary_url (shared initial_world),
                                 pending := pending initial_world @ [Primary ?req]\<rparr>"
    by blast
  have "0 < length (pending ?w1) \<and> pending ?w1 ! 0 = Primary ?req
          \<and> fetch_json ?e1 primary_url = None"
    by (simp add: world_defs initial_state_def)
  with load_is_not_repeated_once_flag_is_set [where req = ?req and w = ?w1 and i = 0 and e = ?e1]
  have w2: "?w2 = ?w1\<lparr>pending := (pending ?w1)[0 := Returning ?req]\<rparr>"
    by blast
  have ret: "0 < length (pending ?w2) \<and> pending ?w2 ! 0 = Returning ?req"
    by (simp add: world_defs initial_state_def)
  with load_is_not_repeated_once_flag_is_set [where req = ?req and w = ?w2 and i = 0 and e = ?e1]
  have flag: "dataLoaded (shared ?w3)"
    and keys: "languageData (shared ?w3) = languageData (shared ?w2)"
    and log: "fetched (shared ?w3) = fetched (shared ?w2)"
    by blast+
  have sh2: "shared ?w2 = issue primary_url initial_state"
  proof -
    have "shared ?w2 = shared ?w1" by (subst w2) simp
    also have "\<dots> = issue primary_url initial_state"
      by (subst w1) (simp add: initial_world_def)
    finally show ?thesis .
  qed
  have "step (Resume ?e1 0) ?w2
          = settle (Some 0) (resume ?e1 (Returning ?req) (shared ?w2)) ?w2"
    using ret by simp
  then have heap3: "heap (shared ?w3) = heap initial_state"
    by (simp add: sh2 settle_def issue_def handle_def languages_handler_def ensure_loaded_def
          del: step.simps)
  have store: "store_words (shared ?w3) ''en'' = Some fallback_words"
    by (simp add: store_words_def keys heap3 sh2 issue_def initial_state_def del: step.simps)
  have log3: "fetched (shared ?w3) = [primary_url]"
    by (simp add: log sh2 issue_def initial_state_def del: step.simps)
  from load_is_not_repeated_once_flag_is_set [where req = ?later and w = ?w3 and e = ?e2] flag
  have "fetched (shared (step (Arrive ?e2 ?later) ?w3)) = fetched (shared ?w3)"
    by blast
  with flag store log3 show ?thesis by (simp del: step.simps)
qed

text \<open>
  Two requests arrive before the first fetch has answered: each finds the flag unset and
  each starts a load, so the primary URL is fetched twice, although the second request came
  after the first and the flag is set at the end.
\<close>

theorem overlapping_requests_load_twice_counterexample:
  "fetched (shared (steps
      [Arrive \<lparr>date_now = 1700000000000, fetch_json = (\<lambda>url. None), math_random = (\<lambda>n. 1 / 4)\<rparr>
         \<lparr>route = Languages, cf_connecting_ip = None, query = []\<rparr>,
       Arrive \<lparr>date_now = 1700000000050, fetch_json = (\<lambda>url. None), math_random = (\<lambda>n. 1 / 4)\<rparr>
         \<lparr>route = Languages, cf_connecting_ip = None, query = []\<rparr>,
       Resume \<lparr>date_now = 1700000000100, fetch_json = (\<lambda>url. None), math_random = (\<lambda>n. 1 / 4)\<rparr> 0,
       Resume \<lparr>date_now = 1700000000100, fetch_json = (\<lambda>url. None), math_random = (\<lambda>n. 1 / 4)\<rparr> 0,
       Resume \<lparr>date_now = 1700000000150, fetch_json = (\<lambda>url. None), math_random = (\<lambda>n. 1 / 4)\<rparr> 0,
       Resume \<lparr>date_now = 1700000000150, fetch_json = (\<lambda>url. None), math_random = (\<lambda>n. 1 / 4)\<rparr> 0]
      initial_world)) = [primary_url, primary_url]
   \<and> dataLoaded (shared (steps
      [Arrive \<lparr>date_now = 1700000000000, fetch_json = (\<lambda>url. None), math_random = (\<lambda>n. 1 / 4)\<rparr>
         \<lparr>route = Languages, cf_connecting_ip = None, query = []\<rparr>,
       Arrive \<lparr>date_now = 1700000000050, fetch_json = (\<lambda>url. None), math_random = (\<lambda>n. 1 / 4)\<rparr>
         \<lparr>route = Languages, cf_connecting_ip = None, query = []\<rparr>,
       Resume \<lparr>date_now = 1700000000100, fetch_json = (\<lambda>url. None), math_random = (\<lambda>n. 1 / 4)\<rparr> 0,
       Resume \<lparr>date_now = 1700000000100, fetch_json = (\<lambda>url. None), math_random = (\<lambda>n. 1 / 4)\<rparr> 0,
       Resume \<lparr>date_now = 1700000000150, fetch_json = (\<lambda>url. None), math_random = (\<lambda>n. 1 / 4)\<rparr> 0,
       Resume \<lparr>date_now = 1700000000150, fetch_json = (\<lambda>url. None), math_random = (\<lambda>n. 1 / 4)\<rparr> 0]
      initial_world))"
  by (simp add: world_defs eval_defs)

text \<open>
  A request that is alone in the worker from its arrival to its answer is handled as
  \<open>handle\<close> says: the steps of the interleaved worker, taken without any other event in
  between and with the same observations throughout, end in the state and with the answer
  of \<open>handle\<close>.
\<close>

lemma handle_guard:
  assumes "route req \<in> {Languages, All, Word}" and "ensure_loaded e s = ensure_loaded e s1"
  shows "handle e req s = handle e req s1"
  using assms
  by (auto simp: handle_def languages_handler_def all_handler_def word_handler_def)

lemma load_language_issue:
  "load_language e lang s =
     (case fetch_json e (language_url lang) of
        None \<Rightarrow> issue (language_url lang) s
      | Some ws \<Rightarrow> set_language lang ws (issue (language_url lang) s))"
  by (simp add: load_language_def fetch_words_def issue_def split: option.splits)

lemma loadWordData_issue:
  "loadWordData e s =
     (case fetch_json e primary_url of
        None \<Rightarrow> issue primary_url s
      | Some ws \<Rightarrow>
          (let s3 = fold (load_language e) languages (set_language ''en'' ws (issue primary_url s))
           in s3\<lparr>availableLanguages := map fst (languageData s3)\<rparr>))"
  by (simp add: loadWordData_def fetch_words_def issue_def Let_def split: option.splits)

lemma steps_replicate_Suc:
  "steps (replicate (Suc n) ev) w = steps (replicate n ev) (step ev w)"
  by simp

lemma next_language_Suspended: "\<exists>t s1. next_language req ls s = Suspended t s1"
  by (cases ls) simp_all

lemma languages_alone:
  assumes "next_language req ls s = Suspended t s1"
  shows "\<exists>n. steps (replicate n (Resume e 0)) \<lparr>shared = s1, pending = [t], sent = out\<rparr>
           = \<lparr>shared = snd (handle e req
                 ((fold (load_language e) ls s)
                    \<lparr>availableLanguages := map fst (languageData (fold (load_language e) ls s)),
                     dataLoaded := True\<rparr>)),
              pending = [],
              sent = out @ [fst (handle e req
                 ((fold (load_language e) ls s)
                    \<lparr>availableLanguages := map fst (languageData (fold (load_language e) ls s)),
                     dataLoaded := True\<rparr>))]\<rparr>"
  using assms
proof (induction ls arbitrary: s t s1)
  case Nil
  then have t: "t = Returning req"
    and s1: "s1 = s\<lparr>availableLanguages := map fst (languageData s)\<rparr>"
    by simp_all
  have "steps (replicate (Suc 0) (Resume e 0)) \<lparr>shared = s1, pending = [t], sent = out\<rparr>
          = \<lparr>shared = snd (handle e req (s1\<lparr>dataLoaded := True\<rparr>)), pending = [],
             sent = out @ [fst (handle e req (s1\<lparr>dataLoaded := True\<rparr>))]\<rparr>"
    by (simp add: t settle_def split: prod.splits)
  then show ?case unfolding s1 by (intro exI [of _ "Suc 0"]) simp
next
  case (Cons l rest)
  then have t: "t = Secondary req l rest" and s1: "s1 = issue (language_url l) s"
    by simp_all
  obtain t2 s2 where nxt: "next_language req rest (load_language e l s) = Suspended t2 s2"
    using next_language_Suspended by blast
  have one: "step (Resume e 0) \<lparr>shared = s1, pending = [t], sent = out\<rparr>
               = \<lparr>shared = s2, pending = [t2], sent = out\<rparr>"
    using nxt by (simp add: t s1 settle_def load_language_issue split: option.splits)
  from Cons.IH [OF nxt] obtain n where
    "steps (replicate n (Resume e 0)) \<lparr>shared = s2, pending = [t2], sent = out\<rparr>
       = \<lparr>shared = snd (handle e req
             ((fold (load_language e) rest (load_language e l s))
                \<lparr>availableLanguages :=
                   map fst (languageData (fold (load_language e) rest (load_language e l s))),
                 dataLoaded := True\<rparr>)),
          pending = [],
          sent = out @ [fst (handle e req
             ((fold (load_language e) rest (load_language e l s))
                \<lparr>availableLanguages :=
                   map fst (languageData (fold (load_language e) rest (load_language e l s))),
                 dataLoaded := True\<rparr>))]\<rparr>"
    by blast
  then show ?case
    by (intro exI [of _ "Suc n"]) (simp only: steps_replicate_Suc one fold_simps)
qed

lemma request_alone_is_handle:
  assumes "pending w = []"
  shows "\<exists>n. steps (replicate n (Resume e 0)) (step (Arrive e req) w)
           = \<lparr>shared = snd (handle e req (shared w)), pending = [],
              sent = sent w @ [fst (handle e req (shared w))]\<rparr>"
proof (cases "route req \<in> {Languages, All, Word} \<and> \<not> dataLoaded (shared w)")
  case False
  then have "step (Arrive e req) w
      = \<lparr>shared = snd (handle e req (shared w)), pending = [],
         sent = sent w @ [fst (handle e req (shared w))]\<rparr>"
    using assms by (auto simp: arrive_def settle_def split: prod.splits)
  then show ?thesis by (intro exI [of _ 0]) simp
next
  case True
  let ?s = "shared w"
  let ?s1 = "issue primary_url ?s"
  have w1: "step (Arrive e req) w = \<lparr>shared = ?s1, pending = [Primary req], sent = sent w\<rparr>"
    using True assms by (simp add: arrive_def settle_def)
  have guard: "handle e req ?s = handle e req ((loadWordData e ?s)\<lparr>dataLoaded := True\<rparr>)"
    using True by (intro handle_guard) (simp_all add: ensure_loaded_def)
  show ?thesis
  proof (cases "fetch_json e primary_url")
    case None
    then have load: "loadWordData e ?s = ?s1" by (simp add: loadWordData_issue)
    have "steps (replicate (Suc (Suc 0)) (Resume e 0)) (step (Arrive e req) w)
        = \<lparr>shared = snd (handle e req (?s1\<lparr>dataLoaded := True\<rparr>)), pending = [],
           sent = sent w @ [fst (handle e req (?s1\<lparr>dataLoaded := True\<rparr>))]\<rparr>"
      unfolding w1 using None by (simp add: settle_def split: prod.splits)
    then show ?thesis unfolding guard load by blast
  next
    case (Some ws)
    let ?s2 = "set_language ''en'' ws ?s1"
    let ?s3 = "fold (load_language e) languages ?s2"
    have load: "loadWordData e ?s = ?s3\<lparr>availableLanguages := map fst (languageData ?s3)\<rparr>"
      using Some by (simp add: loadWordData_issue Let_def)
    obtain t2 s2 where nxt: "next_language req languages ?s2 = Suspended t2 s2"
      using next_language_Suspended by blast
    have one: "step (Resume e 0) (step (Arrive e req) w)
                 = \<lparr>shared = s2, pending = [t2], sent = sent w\<rparr>"
      unfolding w1 using Some nxt by (simp add: settle_def)
    from languages_alone [OF nxt, of e "sent w"] obtain n where
      "steps (replicate n (Resume e 0)) \<lparr>shared = s2, pending = [t2], sent = sent w\<rparr>
         = \<lparr>shared = snd (handle e req
               (?s3\<lparr>availableLanguages := map fst (languageData ?s3), dataLoaded := True\<rparr>)),
            pending = [],
            sent = sent w @ [fst (handle e req
               (?s3\<lparr>availableLanguages := map fst (languageData ?s3), dataLoaded := True\<rparr>))]\<rparr>"
      by blast
    then have "steps (replicate (Suc n) (Resume e 0)) (step (Arrive e req) w)
         = \<lparr>shared = snd (handle e req ((loadWordData e ?s)\<lparr>dataLoaded := True\<rparr>)),
            pending = [],
            sent = sent w @ [fst (handle e req ((loadWordData e ?s)\<lparr>dataLoaded := True\<rparr>))]\<rparr>"
      by (simp only: steps_replicate_Suc one load)
    then show ?thesis unfolding guard by blast
  qed
qed

text \<open>
  The entry of \<open>en\<close> also survives every step of the interleaved worker, whatever requests
  are in flight.
\<close>

lemma en_present_set_language: "en_present s \<Longrightarrow> en_present (set_language lang ws s)"
  using keys_set_language [of lang ws s]
  by (simp add: en_present_def set_language_fields(3))

lemma en_present_next_language:
  "en_present s \<Longrightarrow> next_language req ls s = Suspended t s1 \<Longrightarrow> en_present s1"
  by (cases ls) (force simp: en_present_def issue_def)+

lemma en_present_resume:
  assumes "en_present s"
  shows "resume e t s = Suspended t1 s1 \<Longrightarrow> en_present s1"
    and "resume e t s = Done (r, s1) \<Longrightarrow> en_present s1"
proof -
  show "resume e t s = Suspended t1 s1 \<Longrightarrow> en_present s1"
    using assms en_present_set_language [OF assms]
    by (cases t) (auto dest: en_present_next_language split: option.splits)
  show "resume e t s = Done (r, s1) \<Longrightarrow> en_present s1"
  proof (cases t)
    case (Returning req)
    assume "resume e t s = Done (r, s1)"
    with Returning have s1: "s1 = snd (handle e req (s\<lparr>dataLoaded := True\<rparr>))" by simp
    from assms have "en_present (s\<lparr>dataLoaded := True\<rparr>)" by (simp add: en_present_def)
    then show ?thesis unfolding s1 by (rule en_present_handle)
  qed (auto simp: next_language_suspends split: option.splits)
qed

lemma en_present_step:
  assumes "en_present (shared w)"
  shows "en_present (shared (step ev w))"
proof (cases ev)
  case (Arrive e req)
  show ?thesis
  proof (cases "route req \<in> {Languages, All, Word} \<and> \<not> dataLoaded (shared w)")
    case True
    with assms Arrive show ?thesis
      by (simp add: arrive_def settle_Suspended en_present_def issue_def)
  next
    case False
    then have "arrive e req (shared w) = Done (handle e req (shared w))"
      by (simp add: arrive_def)
    with assms Arrive show ?thesis
      by (simp add: settle_Done en_present_handle)
  qed
next
  case (Resume e i)
  show ?thesis
  proof (cases "i < length (pending w)")
    case False
    with Resume assms show ?thesis by simp
  next
    case True
    show ?thesis
    proof (cases "resume e (pending w ! i) (shared w)")
      case (Suspended t s1)
      with en_present_resume(1) [OF assms this] Resume True show ?thesis
        by (simp add: settle_Suspended)
    next
      case (Done out)
      obtain r s1 where out: "out = (r, s1)" by (cases out)
      with Done en_present_resume(2) [OF assms, of e "pending w ! i" r s1] Resume True
      show ?thesis by (simp add: settle_Done)
    qed
  qed
qed

lemma en_present_steps: "en_present (shared w) \<Longrightarrow> en_present (shared (steps evs w))"
  by (induction evs arbitrary: w) (simp_all add: en_present_step del: step.simps)

end
